theory Spec2Isabelle
  imports Main
begin

section \<open>JavaScript values\<close>

text \<open>
  The logger treats events, metadata and request bodies as plain objects
  (\<^verbatim>\<open>object[]\<close>, \<^verbatim>\<open>any\<close>). They are modelled by the values that JSON can
  carry; an object is the list of its own properties, each key occurring once.
  A property that is absent reads as \<^verbatim>\<open>undefined\<close>, which is \<open>None\<close> here.
\<close>

datatype jsval =
    JNull
  | JBool bool
  | JNum int
  | JStr string
  | JArr "jsval list"
  | JObj "(string \<times> jsval) list"

text \<open>A \<^verbatim>\<open>number\<close> as far as the comparisons of the logger see it: a
  millisecond count or \<^verbatim>\<open>NaN\<close>.\<close>

datatype jsnumber = Number int | NaN

text \<open>\<^verbatim>\<open>a < b\<close> with a number on the right: false whenever the left side is \<^verbatim>\<open>NaN\<close>.\<close>

fun lessThan_js :: "jsnumber \<Rightarrow> int \<Rightarrow> bool" where
  "lessThan_js (Number a) b = (a < b)"
| "lessThan_js NaN b = False"

text \<open>Property read \<^verbatim>\<open>v.k\<close> on a value that is not \<^verbatim>\<open>null\<close>.\<close>

fun getProp :: "string \<Rightarrow> jsval \<Rightarrow> jsval option" where
  "getProp k (JObj fs) = map_of fs k"
| "getProp k v = None"

text \<open>Truthiness of a value the way \<^verbatim>\<open>&&\<close> tests it.\<close>

fun truthy :: "jsval \<Rightarrow> bool" where
  "truthy JNull = False"
| "truthy (JBool b) = b"
| "truthy (JNum n) = (n \<noteq> 0)"
| "truthy (JStr s) = (s \<noteq> [])"
| "truthy (JArr xs) = True"
| "truthy (JObj fs) = True"

fun isArray :: "jsval \<Rightarrow> bool" where
  "isArray (JArr xs) = True"
| "isArray v = False"

text \<open>Assignment \<^verbatim>\<open>o[k] = v\<close> on the property list of an object: an own property
  keeps its place, a new one goes to the end.\<close>

fun setProp :: "string \<Rightarrow> 'a \<Rightarrow> (string \<times> 'a) list \<Rightarrow> (string \<times> 'a) list" where
  "setProp k v [] = [(k, v)]"
| "setProp k v ((k', v') # fs) = (if k' = k then (k, v) # fs else (k', v') # setProp k v fs)"

section \<open>StatsigLogger: constants and state\<close>

definition INTERNAL_EVENT_PREFIX :: string where
  "INTERNAL_EVENT_PREFIX = ''statsig::''"

definition CONFIG_EXPOSURE_EVENT :: string where
  "CONFIG_EXPOSURE_EVENT = INTERNAL_EVENT_PREFIX @ ''config_exposure''"

definition GATE_EXPOSURE_EVENT :: string where
  "GATE_EXPOSURE_EVENT = INTERNAL_EVENT_PREFIX @ ''gate_exposure''"

definition LAYER_EXPOSURE_EVENT :: string where
  "LAYER_EXPOSURE_EVENT = INTERNAL_EVENT_PREFIX @ ''layer_exposure''"

definition LOG_FAILURE_EVENT :: string where
  "LOG_FAILURE_EVENT = INTERNAL_EVENT_PREFIX @ ''log_event_failed''"

definition DEFAULT_VALUE_WARNING :: string where
  "DEFAULT_VALUE_WARNING = INTERNAL_EVENT_PREFIX @ ''default_value_type_mismatch''"

definition MS_RETRY_LOGS_CUTOFF :: int where
  "MS_RETRY_LOGS_CUTOFF = 5 * 24 * 60 * 60 * 1000"

definition MAX_BATCHES_TO_RETRY :: nat where
  "MAX_BATCHES_TO_RETRY = 100"

definition MAX_FAILED_EVENTS :: nat where
  "MAX_FAILED_EVENTS = 1000"

definition MAX_LOCAL_STORAGE_SIZE :: nat where
  "MAX_LOCAL_STORAGE_SIZE = 1024 * MAX_FAILED_EVENTS"

text \<open>Modelled from the spec: the fixed key of the durable substrate under
  which the failed batches are saved. \<^verbatim>\<open>utils/Constants\<close> is not among the
  sources; only the fact that the key is one fixed string is used.\<close>

definition STATSIG_LOCAL_STORAGE_LOGGING_REQUEST_KEY :: string where
  "STATSIG_LOCAL_STORAGE_LOGGING_REQUEST_KEY = ''STATSIG_LOCAL_STORAGE_LOGGING_REQUEST''"

record FailedLogEventBody =
  events :: "jsval list"
  statsigMetadata :: jsval
  time :: jsnumber

text \<open>The calls the logger makes on its network and on its error boundary,
  recorded in the order they are made.\<close>

datatype call =
    PostToEndpoint "jsval list" jsval nat nat bool
      \<comment> \<open>events, statsigMetadata, retries, backoff, useKeepalive\<close>
  | PostSavedRequest jsval
      \<comment> \<open>\<^verbatim>\<open>postToEndpoint(Rgstr, requestBody)\<close> of the startup replay\<close>
  | SendLogBeacon "jsval list" jsval
  | LogError string nat
      \<comment> \<open>\<^verbatim>\<open>_errorBoundary._logError(name, ...)\<close> with the event count\<close>

record options =
  disableCurrentPageLogging :: bool
  loggingBufferMaxSize :: int

text \<open>Modelled from the spec: the durable substrate. \<^verbatim>\<open>StatsigLocalStorage\<close> is
  not among the sources; by the interface the specification gives it (get, set
  and remove of a string under a key, all synchronous) it is a map from keys to
  strings, the field \<open>localStorage\<close>. The other fields are those of the class,
  with the options and the identity metadata it reads, and \<open>calls\<close> for what it
  has asked of its network and of its error boundary.\<close>

record logger =
  opts :: options
  identityMetadata :: jsval
  queue :: "jsval list"
  loggedErrors :: "string set"
  failedLogEvents :: "FailedLogEventBody list"
  exposureDedupeKeys :: "string \<rightharpoonup> int"
  failedLogEventCount :: nat
  calls :: "call list"
  localStorage :: "string \<rightharpoonup> string"

text \<open>The constructor's field values; the collaborators are handed in.\<close>

definition newLogger :: "options \<Rightarrow> jsval \<Rightarrow> (string \<rightharpoonup> string) \<Rightarrow> logger" where
  "newLogger os md storage =
     \<lparr> opts = os, identityMetadata = md, queue = [], loggedErrors = {},
       failedLogEvents = [], exposureDedupeKeys = Map.empty,
       failedLogEventCount = 0, calls = [], localStorage = storage \<rparr>"

section \<open>Dedup filter\<close>

text \<open>
  \<^verbatim>\<open>exposureDedupeKeys\<close> is a plain object \<^verbatim>\<open>{}\<close>; the field of the logger holds
  its own properties. A key that is no own property is looked up on
  \<^verbatim>\<open>Object.prototype\<close>, whose properties are listed here: the read then gives
  a function or, for \<^verbatim>\<open>__proto__\<close>, the prototype object itself, never
  \<^verbatim>\<open>undefined\<close> and never a number.
\<close>

definition objectPrototypeKeys :: "string list" where
  "objectPrototypeKeys =
     [''constructor'', ''hasOwnProperty'', ''isPrototypeOf'', ''propertyIsEnumerable'',
      ''toLocaleString'', ''toString'', ''valueOf'', ''__defineGetter__'',
      ''__defineSetter__'', ''__lookupGetter__'', ''__lookupSetter__'', ''__proto__'']"

datatype recordRead = Absent | Own int | FromPrototype

text \<open>The read \<^verbatim>\<open>this.exposureDedupeKeys[key]\<close>.\<close>

definition readRecord :: "(string \<rightharpoonup> int) \<Rightarrow> string \<Rightarrow> recordRead" where
  "readRecord m key =
     (case m key of
        Some t \<Rightarrow> Own t
      | None \<Rightarrow> if key \<in> set objectPrototypeKeys then FromPrototype else Absent)"

text \<open>The assignment \<^verbatim>\<open>this.exposureDedupeKeys[key] = now\<close>. It sets an own
  property, or creates one, except for \<^verbatim>\<open>__proto__\<close>: where that is no own
  property the assignment runs the setter of \<^verbatim>\<open>Object.prototype\<close>, which
  ignores a number, and the object stays as it is.\<close>

definition writeRecord :: "(string \<rightharpoonup> int) \<Rightarrow> string \<Rightarrow> int \<Rightarrow> (string \<rightharpoonup> int)" where
  "writeRecord m key v = (if key = ''__proto__'' \<and> m key = None then m else m(key \<mapsto> v))"

text \<open>\<^verbatim>\<open>_shouldLogExposure(key)\<close>; \<open>now\<close> is the value \<^verbatim>\<open>Date.now()\<close> returns. A value
  read from the prototype is not \<^verbatim>\<open>null\<close>, and compared with a number it is
  \<^verbatim>\<open>NaN\<close>, so \<^verbatim>\<open>lastTime >= now - 600 * 1000\<close> is false for it.\<close>

definition shouldLogExposure :: "int \<Rightarrow> string \<Rightarrow> logger \<Rightarrow> bool \<times> logger" where
  "shouldLogExposure now key st =
     (case readRecord (exposureDedupeKeys st) key of
        Absent \<Rightarrow>
          (True, st\<lparr>exposureDedupeKeys := writeRecord (exposureDedupeKeys st) key now\<rparr>)
      | Own lastTime \<Rightarrow>
          if lastTime \<ge> now - 600 * 1000 then (False, st)
          else (True, st\<lparr>exposureDedupeKeys := writeRecord (exposureDedupeKeys st) key now\<rparr>)
      | FromPrototype \<Rightarrow>
          (True, st\<lparr>exposureDedupeKeys := writeRecord (exposureDedupeKeys st) key now\<rparr>))"

definition resetDedupeKeys :: "logger \<Rightarrow> logger" where
  "resetDedupeKeys st = st\<lparr>exposureDedupeKeys := Map.empty\<rparr>"

text \<open>A run of dedup checks, each with its own clock reading, and the answers in order.\<close>

fun shouldLogExposures :: "(int \<times> string) list \<Rightarrow> logger \<Rightarrow> bool list \<times> logger" where
  "shouldLogExposures [] st = ([], st)"
| "shouldLogExposures ((now, key) # ps) st =
     (let (r, st1) = shouldLogExposure now key st;
          (rs, st2) = shouldLogExposures ps st1
      in (r # rs, st2))"

section \<open>Failure store\<close>

text \<open>\<^verbatim>\<open>_addFailedRequest(requestBody)\<close>: the age check, the batch cap and the
  event cap in the order of the source; a rejected body leaves every field as it was.\<close>

definition addFailedRequest :: "int \<Rightarrow> FailedLogEventBody \<Rightarrow> logger \<Rightarrow> logger" where
  "addFailedRequest now requestBody st =
     (if lessThan_js (time requestBody) (now - MS_RETRY_LOGS_CUTOFF) then st
      else if length (failedLogEvents st) > MAX_BATCHES_TO_RETRY then st
      else
        let additionalEvents = length (events requestBody) in
        if failedLogEventCount st + additionalEvents > MAX_FAILED_EVENTS then st
        else st\<lparr>failedLogEvents := failedLogEvents st @ [requestBody],
                failedLogEventCount := failedLogEventCount st + additionalEvents\<rparr>)"

definition clearLocalStorageRequests :: "logger \<Rightarrow> logger" where
  "clearLocalStorageRequests st =
     st\<lparr>localStorage := (localStorage st)(STATSIG_LOCAL_STORAGE_LOGGING_REQUEST_KEY := None)\<rparr>"

text \<open>The object that \<^verbatim>\<open>JSON.stringify\<close> sees for one stored body (a \<^verbatim>\<open>NaN\<close> is
  written as \<^verbatim>\<open>null\<close>).\<close>

definition jsonOfBody :: "FailedLogEventBody \<Rightarrow> jsval" where
  "jsonOfBody b =
     JObj [(''events'', JArr (events b)),
           (''statsigMetadata'', statsigMetadata b),
           (''time'', (case time b of Number t \<Rightarrow> JNum t | NaN \<Rightarrow> JNull))]"

text \<open>\<^verbatim>\<open>_saveFailedRequests()\<close>; \<open>stringify\<close> is the runtime's \<^verbatim>\<open>JSON.stringify\<close>.
  The body has no \<^verbatim>\<open>await\<close>, so it runs to its end when it is called.\<close>

definition saveFailedRequests :: "(jsval \<Rightarrow> string) \<Rightarrow> logger \<Rightarrow> logger" where
  "saveFailedRequests stringify st =
     (if length (failedLogEvents st) > 0 then
        let requestsCopy = stringify (JArr (map jsonOfBody (failedLogEvents st))) in
        if length requestsCopy > MAX_LOCAL_STORAGE_SIZE then clearLocalStorageRequests st
        else st\<lparr>localStorage :=
                  (localStorage st)(STATSIG_LOCAL_STORAGE_LOGGING_REQUEST_KEY \<mapsto> requestsCopy)\<rparr>
      else st)"

text \<open>\<^verbatim>\<open>_newFailedRequest(name, queue)\<close>.\<close>

definition newFailedRequest ::
  "(jsval \<Rightarrow> string) \<Rightarrow> int \<Rightarrow> string \<Rightarrow> jsval list \<Rightarrow> logger \<Rightarrow> logger" where
  "newFailedRequest stringify now name q st =
     (if name \<in> loggedErrors st then st
      else
        let st1 = st\<lparr>loggedErrors := insert name (loggedErrors st)\<rparr>;
            st2 = st1\<lparr>failedLogEvents := failedLogEvents st1 @
                     [\<lparr>events = q, statsigMetadata = identityMetadata st1, time = Number now\<rparr>]\<rparr>
        in saveFailedRequests stringify st2)"

section \<open>Outbound queue and delivery\<close>

text \<open>What one synchronous run of the logger reads from its surroundings: the
  clock, the page location (when \<^verbatim>\<open>window.location.href\<close> is a string), the
  transport's \<^verbatim>\<open>supportsKeepalive()\<close>, whether \<^verbatim>\<open>navigator.sendBeacon\<close> exists,
  what \<^verbatim>\<open>sendLogBeacon\<close> answers, and \<^verbatim>\<open>JSON.stringify\<close>. All calls of
  \<^verbatim>\<open>Date.now()\<close> within one run read the same value \<open>dateNow\<close>.\<close>

record env =
  dateNow :: int
  locationHref :: "string option"
  supportsKeepalive :: bool
  navigatorSendBeacon :: bool
  sendLogBeacon :: bool
  stringify :: "jsval \<Rightarrow> string"

text \<open>\<^verbatim>\<open>flush(isClosing)\<close> up to the point where it returns. The promise of
  \<^verbatim>\<open>postToEndpoint\<close> settles later, see \<open>flushSettled\<close>.\<close>

definition flush :: "env \<Rightarrow> bool \<Rightarrow> logger \<Rightarrow> logger" where
  "flush e isClosing st =
     (if length (queue st) = 0 then st
      else
        let md = identityMetadata st;
            oldQueue = queue st;
            st1 = st\<lparr>queue := []\<rparr>
        in
        if isClosing \<and> \<not> supportsKeepalive e \<and> navigatorSendBeacon e then
          let st2 = st1\<lparr>calls := calls st1 @ [SendLogBeacon oldQueue md]\<rparr> in
          if \<not> sendLogBeacon e then
            let st3 = st2\<lparr>queue := oldQueue @ queue st2\<rparr>;
                st4 = (if length (queue st3) > 0
                       then (addFailedRequest (dateNow e)
                               \<lparr>events = queue st3, statsigMetadata = md, time = Number (dateNow e)\<rparr>
                               st3)\<lparr>queue := []\<rparr>
                       else st3)
            in saveFailedRequests (stringify e) st4
          else st2
        else st1\<lparr>calls := calls st1 @ [PostToEndpoint oldQueue md 3 1000 isClosing]\<rparr>)"

text \<open>How the promise of \<^verbatim>\<open>postToEndpoint\<close> ends: a response that is ok, a
  response that is not ok (with the text its \<^verbatim>\<open>text()\<close> resolves to, if it ever
  does), or a rejection with an error that has no \<^verbatim>\<open>text\<close> function.\<close>

datatype outcome = ResponseOk | ResponseNotOk "string option" | Rejected

text \<open>The \<^verbatim>\<open>catch\<close> handler of \<open>flush\<close>: the error boundary is called (for a
  response, once its text is there), then \<^verbatim>\<open>_newFailedRequest\<close>.\<close>

definition flushCatch :: "env \<Rightarrow> jsval list \<Rightarrow> outcome \<Rightarrow> logger \<Rightarrow> logger" where
  "flushCatch e oldQueue out st =
     (let st1 = (case out of
                   ResponseNotOk None \<Rightarrow> st
                 | _ \<Rightarrow> st\<lparr>calls := calls st @ [LogError LOG_FAILURE_EVENT (length oldQueue)]\<rparr>)
      in newFailedRequest (stringify e) (dateNow e) LOG_FAILURE_EVENT oldQueue st1)"

text \<open>The \<^verbatim>\<open>finally\<close> handler of \<open>flush\<close>; \<open>md\<close> is the metadata \<open>flush\<close> captured.\<close>

definition flushFinally :: "env \<Rightarrow> bool \<Rightarrow> jsval \<Rightarrow> logger \<Rightarrow> logger" where
  "flushFinally e isClosing md st =
     (if isClosing then
        let st1 = (if length (queue st) > 0
                   then (addFailedRequest (dateNow e)
                           \<lparr>events = queue st, statsigMetadata = md, time = Number (dateNow e)\<rparr>
                           st)\<lparr>queue := []\<rparr>
                   else st)
        in saveFailedRequests (stringify e) st1
      else st)"

definition flushSettled ::
  "env \<Rightarrow> bool \<Rightarrow> jsval \<Rightarrow> jsval list \<Rightarrow> outcome \<Rightarrow> logger \<Rightarrow> logger" where
  "flushSettled e isClosing md oldQueue out st =
     flushFinally e isClosing md
       (case out of ResponseOk \<Rightarrow> st | _ \<Rightarrow> flushCatch e oldQueue out st)"

text \<open>\<^verbatim>\<open>href.split(/[?#]/)[0]\<close>.\<close>

definition currentPage :: "string \<Rightarrow> string" where
  "currentPage href = takeWhile (\<lambda>c. c \<noteq> CHR ''?'' \<and> c \<noteq> CHR ''#'') href"

text \<open>\<^verbatim>\<open>event.statsigMetadata.currentPage = page\<close> inside \<^verbatim>\<open>try\<close>: where the
  event has no metadata object the assignment throws and the event stays as it is.\<close>

fun setCurrentPage :: "string \<Rightarrow> jsval \<Rightarrow> jsval" where
  "setCurrentPage page (JObj fs) =
     (case map_of fs ''statsigMetadata'' of
        Some (JObj ms) \<Rightarrow>
          JObj (setProp ''statsigMetadata'' (JObj (setProp ''currentPage'' (JStr page) ms)) fs)
      | _ \<Rightarrow> JObj fs)"
| "setCurrentPage page v = v"

text \<open>\<^verbatim>\<open>log(event)\<close>: the \<^verbatim>\<open>try\<close> block that attaches the page, then the push and
  the flush at the size threshold.\<close>

definition attachCurrentPage :: "env \<Rightarrow> options \<Rightarrow> jsval \<Rightarrow> jsval" where
  "attachCurrentPage e os event =
     (if \<not> disableCurrentPageLogging os
      then (case locationHref e of
              Some href \<Rightarrow> setCurrentPage (currentPage href) event
            | None \<Rightarrow> event)
      else event)"

definition log :: "env \<Rightarrow> jsval \<Rightarrow> logger \<Rightarrow> logger" where
  "log e event st =
     (let st1 = st\<lparr>queue := queue st @ [attachCurrentPage e (opts st) event]\<rparr>
      in if int (length (queue st1)) \<ge> loggingBufferMaxSize (opts st1)
         then flush e False st1 else st1)"

definition shutdown :: "env \<Rightarrow> logger \<Rightarrow> logger" where
  "shutdown e st = flush e True st"

section \<open>Startup replay\<close>

text \<open>What \<^verbatim>\<open>for (const requestBody of requestBodies)\<close> runs through: the
  elements of an array, the characters of a string; any other value is not
  iterable and the loop throws (\<open>None\<close>).\<close>

fun iterate :: "jsval \<Rightarrow> jsval list option" where
  "iterate (JArr xs) = Some xs"
| "iterate (JStr s) = Some (map (\<lambda>c. JStr [c]) s)"
| "iterate v = None"

text \<open>\<^verbatim>\<open>requestBody != null && requestBody.events && Array.isArray(requestBody.events)\<close>.\<close>

definition isRequestBody :: "jsval \<Rightarrow> bool" where
  "isRequestBody requestBody =
     (requestBody \<noteq> JNull \<and>
      (case getProp ''events'' requestBody of
         None \<Rightarrow> False
       | Some ev \<Rightarrow> truthy ev \<and> isArray ev))"

text \<open>The bodies the loop posts, in order; \<open>parse\<close> is the runtime's
  \<^verbatim>\<open>JSON.parse\<close>, \<open>None\<close> where it throws. Whatever is thrown inside \<^verbatim>\<open>try\<close>
  is swallowed.\<close>

definition savedRequestBodies :: "(string \<Rightarrow> jsval option) \<Rightarrow> string \<Rightarrow> jsval list" where
  "savedRequestBodies parse failedRequests =
     (case parse failedRequests of
        None \<Rightarrow> []
      | Some requestBodies \<Rightarrow>
          (case iterate requestBodies of
             None \<Rightarrow> []
           | Some xs \<Rightarrow> filter isRequestBody xs))"

definition fireAndForget :: "string \<Rightarrow> bool" where
  "fireAndForget failedRequests = (length failedRequests > MAX_LOCAL_STORAGE_SIZE)"

text \<open>\<^verbatim>\<open>sendSavedRequests()\<close> up to the point where it returns.\<close>

definition sendSavedRequests :: "(string \<Rightarrow> jsval option) \<Rightarrow> logger \<Rightarrow> logger" where
  "sendSavedRequests parse st =
     (case localStorage st STATSIG_LOCAL_STORAGE_LOGGING_REQUEST_KEY of
        None \<Rightarrow> clearLocalStorageRequests st
      | Some failedRequests \<Rightarrow>
          clearLocalStorageRequests
            (st\<lparr>calls := calls st @
                   map PostSavedRequest (savedRequestBodies parse failedRequests)\<rparr>))"

text \<open>A parsed body read as a \<^verbatim>\<open>FailedLogEventBody\<close>. The check before the post
  made \<^verbatim>\<open>events\<close> an array. A \<^verbatim>\<open>time\<close> that is absent compares as \<^verbatim>\<open>NaN\<close>;
  strings, arrays and objects in that place, which the logger never writes, are
  read as \<^verbatim>\<open>NaN\<close> too. An absent \<^verbatim>\<open>statsigMetadata\<close> is kept as \<^verbatim>\<open>null\<close>.\<close>

fun toNumber :: "jsval option \<Rightarrow> jsnumber" where
  "toNumber (Some (JNum n)) = Number n"
| "toNumber (Some JNull) = Number 0"
| "toNumber (Some (JBool b)) = Number (if b then 1 else 0)"
| "toNumber v = NaN"

definition asFailedLogEventBody :: "jsval \<Rightarrow> FailedLogEventBody" where
  "asFailedLogEventBody requestBody =
     \<lparr> events = (case getProp ''events'' requestBody of Some (JArr es) \<Rightarrow> es | _ \<Rightarrow> []),
       statsigMetadata = (case getProp ''statsigMetadata'' requestBody of
                            Some m \<Rightarrow> m | None \<Rightarrow> JNull),
       time = toNumber (getProp ''time'' requestBody) \<rparr>"

text \<open>The \<^verbatim>\<open>catch\<close> handler of one replayed post, with the flag its closure holds.\<close>

definition savedRequestCatch :: "bool \<Rightarrow> int \<Rightarrow> jsval \<Rightarrow> logger \<Rightarrow> logger" where
  "savedRequestCatch ff now requestBody st =
     (if ff then st else addFailedRequest now (asFailedLogEventBody requestBody) st)"

text \<open>The posts of a replay settle one by one: each either succeeds or runs its
  handler at its own clock reading.\<close>

fun savedRequestsSettled :: "bool \<Rightarrow> (jsval \<times> bool \<times> int) list \<Rightarrow> logger \<Rightarrow> logger" where
  "savedRequestsSettled ff [] st = st"
| "savedRequestsSettled ff ((requestBody, ok, t) # rs) st =
     savedRequestsSettled ff rs (if ok then st else savedRequestCatch ff t requestBody st)"

text \<open>A whole replay: the synchronous part, then the settling of the posts it
  made, in the order given by \<open>results\<close> (one answer and one clock reading per post).\<close>

definition replayOnce ::
  "(string \<Rightarrow> jsval option) \<Rightarrow> (bool \<times> int) list \<Rightarrow> logger \<Rightarrow> logger" where
  "replayOnce parse results st =
     (case localStorage st STATSIG_LOCAL_STORAGE_LOGGING_REQUEST_KEY of
        None \<Rightarrow> sendSavedRequests parse st
      | Some failedRequests \<Rightarrow>
          savedRequestsSettled (fireAndForget failedRequests)
            (zip (savedRequestBodies parse failedRequests) results)
            (sendSavedRequests parse st))"

section \<open>Exposures\<close>

record EvaluationDetails =
  reason :: string
  detailsTime :: int

definition String_bool :: "bool \<Rightarrow> string" where
  "String_bool b = (if b then ''true'' else ''false'')"

definition gateDedupeKey :: "string \<Rightarrow> bool \<Rightarrow> string \<Rightarrow> EvaluationDetails \<Rightarrow> string" where
  "gateDedupeKey gateName gateValue ruleID details =
     gateName @ String_bool gateValue @ ruleID @ reason details"

definition configDedupeKey :: "string \<Rightarrow> string \<Rightarrow> EvaluationDetails \<Rightarrow> string" where
  "configDedupeKey configName ruleID details = configName @ ruleID @ reason details"

definition layerDedupeKey ::
  "string \<Rightarrow> string \<Rightarrow> string \<Rightarrow> string \<Rightarrow> bool \<Rightarrow> EvaluationDetails \<Rightarrow> string" where
  "layerDedupeKey configName ruleID allocatedExperiment parameterName isExplicitParameter details =
     configName @ ''|'' @ ruleID @ ''|'' @ allocatedExperiment @ ''|'' @ parameterName @ ''|'' @
     String_bool isExplicitParameter @ ''|'' @ reason details"

text \<open>\<^verbatim>\<open>makeLogEvent\<close> is imported from a module that is not among the sources; it
  is a parameter \<open>mk\<close>: event name, user, identity metadata, value, metadata and
  the secondary exposures (\<open>None\<close> when the argument is left out) give the event.\<close>

type_synonym makeLogEvent =
  "string \<Rightarrow> jsval \<Rightarrow> jsval \<Rightarrow> jsval \<Rightarrow> jsval \<Rightarrow> jsval list option \<Rightarrow> jsval"

definition logGateExposure ::
  "makeLogEvent \<Rightarrow> env \<Rightarrow> jsval \<Rightarrow> string \<Rightarrow> bool \<Rightarrow> string \<Rightarrow> jsval list \<Rightarrow>
   EvaluationDetails \<Rightarrow> bool \<Rightarrow> logger \<Rightarrow> logger" where
  "logGateExposure mk e user gateName gateValue ruleID secondaryExposures details
     isManualExposure st =
     (let dedupeKey = gateDedupeKey gateName gateValue ruleID details;
          (ok, st1) = shouldLogExposure (dateNow e) dedupeKey st
      in if \<not> ok then st1
         else
           let metadata = JObj ([(''gate'', JStr gateName),
                                 (''gateValue'', JStr (String_bool gateValue)),
                                 (''ruleID'', JStr ruleID),
                                 (''reason'', JStr (reason details)),
                                 (''time'', JNum (detailsTime details))]
                                @ (if isManualExposure
                                   then [(''isManualExposure'', JStr ''true'')] else []))
           in log e (mk GATE_EXPOSURE_EVENT user (identityMetadata st1) JNull metadata
                       (Some secondaryExposures)) st1)"

definition logConfigExposure ::
  "makeLogEvent \<Rightarrow> env \<Rightarrow> jsval \<Rightarrow> string \<Rightarrow> string \<Rightarrow> jsval list \<Rightarrow>
   EvaluationDetails \<Rightarrow> bool \<Rightarrow> logger \<Rightarrow> logger" where
  "logConfigExposure mk e user configName ruleID secondaryExposures details
     isManualExposure st =
     (let dedupeKey = configDedupeKey configName ruleID details;
          (ok, st1) = shouldLogExposure (dateNow e) dedupeKey st
      in if \<not> ok then st1
         else
           let metadata = JObj ([(''config'', JStr configName),
                                 (''ruleID'', JStr ruleID),
                                 (''reason'', JStr (reason details)),
                                 (''time'', JNum (detailsTime details))]
                                @ (if isManualExposure
                                   then [(''isManualExposure'', JStr ''true'')] else []))
           in log e (mk CONFIG_EXPOSURE_EVENT user (identityMetadata st1) JNull metadata
                       (Some secondaryExposures)) st1)"

definition logLayerExposure ::
  "makeLogEvent \<Rightarrow> env \<Rightarrow> jsval \<Rightarrow> string \<Rightarrow> string \<Rightarrow> jsval list \<Rightarrow> string \<Rightarrow> string \<Rightarrow>
   bool \<Rightarrow> EvaluationDetails \<Rightarrow> bool \<Rightarrow> logger \<Rightarrow> logger" where
  "logLayerExposure mk e user configName ruleID secondaryExposures allocatedExperiment
     parameterName isExplicitParameter details isManualExposure st =
     (let dedupeKey = layerDedupeKey configName ruleID allocatedExperiment parameterName
                        isExplicitParameter details;
          (ok, st1) = shouldLogExposure (dateNow e) dedupeKey st
      in if \<not> ok then st1
         else
           let metadata = JObj ([(''config'', JStr configName),
                                 (''ruleID'', JStr ruleID),
                                 (''allocatedExperiment'', JStr allocatedExperiment),
                                 (''parameterName'', JStr parameterName),
                                 (''isExplicitParameter'', JStr (String_bool isExplicitParameter)),
                                 (''reason'', JStr (reason details)),
                                 (''time'', JNum (detailsTime details))]
                                @ (if isManualExposure
                                   then [(''isManualExposure'', JStr ''true'')] else []))
           in log e (mk LAYER_EXPOSURE_EVENT user (identityMetadata st1) JNull metadata
                       (Some secondaryExposures)) st1)"

text \<open>\<^verbatim>\<open>logConfigDefaultValueFallback(user, message, metadata)\<close>: besides
  \<^verbatim>\<open>_newFailedRequest\<close>, the one place that adds to \<^verbatim>\<open>loggedErrors\<close>.\<close>

definition logConfigDefaultValueFallback ::
  "makeLogEvent \<Rightarrow> env \<Rightarrow> jsval \<Rightarrow> string \<Rightarrow> jsval \<Rightarrow> logger \<Rightarrow> logger" where
  "logConfigDefaultValueFallback mk e user message metadata st =
     (let st1 = log e (mk DEFAULT_VALUE_WARNING user (identityMetadata st) (JStr message)
                         metadata None) st
      in st1\<lparr>loggedErrors := insert message (loggedErrors st1)\<rparr>)"

section \<open>Runs of the logger\<close>

text \<open>The batches \<open>flush\<close> has handed to delivery (a post or a beacon), oldest first.\<close>

fun flushedBatches :: "call list \<Rightarrow> jsval list list" where
  "flushedBatches [] = []"
| "flushedBatches (PostToEndpoint q md retries backoff keepalive # cs) = q # flushedBatches cs"
| "flushedBatches (SendLogBeacon q md # cs) = q # flushedBatches cs"
| "flushedBatches (c # cs) = flushedBatches cs"

text \<open>Calls on the queue, each in its own surroundings, and the events they
  enqueue, as enqueued.\<close>

datatype queueOp = Log jsval | Flush bool

fun queueStep :: "env \<times> queueOp \<Rightarrow> logger \<Rightarrow> logger" where
  "queueStep (e, Log event) st = log e event st"
| "queueStep (e, Flush isClosing) st = flush e isClosing st"

fun queueRun :: "(env \<times> queueOp) list \<Rightarrow> logger \<Rightarrow> logger" where
  "queueRun [] st = st"
| "queueRun (x # xs) st = queueRun xs (queueStep x st)"

fun enqueued :: "options \<Rightarrow> (env \<times> queueOp) list \<Rightarrow> jsval list" where
  "enqueued os [] = []"
| "enqueued os ((e, Log event) # xs) = attachCurrentPage e os event # enqueued os xs"
| "enqueued os ((e, Flush isClosing) # xs) = enqueued os xs"

text \<open>Every call on the logger and every callback of a pending promise, for runs
  in which they interleave in any order.\<close>

datatype loggerOp =
    DoLog jsval
  | DoFlush bool
  | DoShutdown
  | DoResetDedupeKeys
  | DoGateExposure jsval string bool string "jsval list" EvaluationDetails bool
  | DoConfigExposure jsval string string "jsval list" EvaluationDetails bool
  | DoLayerExposure jsval string string "jsval list" string string bool EvaluationDetails bool
  | DoDefaultValueFallback jsval string jsval
  | DoSendSavedRequests "string \<Rightarrow> jsval option"
  | PostSettled bool jsval "jsval list" outcome
  | SavedRequestFailed bool jsval

fun loggerStep :: "makeLogEvent \<Rightarrow> env \<times> loggerOp \<Rightarrow> logger \<Rightarrow> logger" where
  "loggerStep mk (e, DoLog event) st = log e event st"
| "loggerStep mk (e, DoFlush isClosing) st = flush e isClosing st"
| "loggerStep mk (e, DoShutdown) st = shutdown e st"
| "loggerStep mk (e, DoResetDedupeKeys) st = resetDedupeKeys st"
| "loggerStep mk (e, DoGateExposure u g v r se d m) st = logGateExposure mk e u g v r se d m st"
| "loggerStep mk (e, DoConfigExposure u c r se d m) st = logConfigExposure mk e u c r se d m st"
| "loggerStep mk (e, DoLayerExposure u c r se a p x d m) st =
     logLayerExposure mk e u c r se a p x d m st"
| "loggerStep mk (e, DoDefaultValueFallback u msg md) st =
     logConfigDefaultValueFallback mk e u msg md st"
| "loggerStep mk (e, DoSendSavedRequests parse) st = sendSavedRequests parse st"
| "loggerStep mk (e, PostSettled isClosing md oldQueue out) st =
     flushSettled e isClosing md oldQueue out st"
| "loggerStep mk (e, SavedRequestFailed ff requestBody) st =
     savedRequestCatch ff (dateNow e) requestBody st"

fun loggerRun :: "makeLogEvent \<Rightarrow> (env \<times> loggerOp) list \<Rightarrow> logger \<Rightarrow> logger" where
  "loggerRun mk [] st = st"
| "loggerRun mk (x # xs) st = loggerRun mk xs (loggerStep mk x st)"

text \<open>Some events are logged and then swept by a terminating flush.\<close>

definition logAndFlush :: "env \<Rightarrow> bool \<Rightarrow> jsval list \<Rightarrow> logger \<Rightarrow> logger" where
  "logAndFlush e isClosing evs st = flush e isClosing (fold (log e) evs st)"

text \<open>A normal flush of one event whose post then fails for good.\<close>

definition logAndFail :: "env \<Rightarrow> jsval \<Rightarrow> logger \<Rightarrow> logger" where
  "logAndFail e event st =
     flushSettled e False (identityMetadata st) [attachCurrentPage e (opts st) event] Rejected
       (flush e False (log e event st))"

text \<open>The events held by the failure store, over all its batches.\<close>

definition bufferedEvents :: "logger \<Rightarrow> nat" where
  "bufferedEvents st = sum_list (map (\<lambda>b. length (events b)) (failedLogEvents st))"

text \<open>The bounds that the failure store does keep: the counter of
  \<^verbatim>\<open>_addFailedRequest\<close> within its cap, and one batch more than
  \<open>MAX_BATCHES_TO_RETRY\<close>, plus the one batch of \<^verbatim>\<open>_newFailedRequest\<close> once the
  failure has been recorded.\<close>

definition withinCaps :: "logger \<Rightarrow> bool" where
  "withinCaps st =
     (failedLogEventCount st \<le> MAX_FAILED_EVENTS \<and>
      (length (failedLogEvents st) \<le> MAX_BATCHES_TO_RETRY + 1 \<or>
       length (failedLogEvents st) = MAX_BATCHES_TO_RETRY + 2 \<and>
       LOG_FAILURE_EVENT \<in> loggedErrors st))"

section \<open>Example values\<close>

definition exampleOptions :: options where
  "exampleOptions = \<lparr> disableCurrentPageLogging = False, loggingBufferMaxSize = 100 \<rparr>"

definition exampleLogger :: logger where
  "exampleLogger = newLogger exampleOptions JNull Map.empty"

text \<open>Surroundings without a window, at a page teardown where the transport has
  no keepalive and the beacon is refused.\<close>

definition teardownEnv :: env where
  "teardownEnv = \<lparr> dateNow = 1000, locationHref = None, supportsKeepalive = False,
                   navigatorSendBeacon = True, sendLogBeacon = False,
                   stringify = (\<lambda>v. ''[]'') \<rparr>"

definition click :: jsval where
  "click = JObj [(''eventName'', JStr ''click'')]"

definition view :: jsval where
  "view = JObj [(''eventName'', JStr ''view'')]"

text \<open>One saved batch, as \<^verbatim>\<open>JSON.parse\<close> returns it.\<close>

definition savedBody :: jsval where
  "savedBody =
     JObj [(''events'', JArr [click]), (''statsigMetadata'', JNull), (''time'', JNum 900)]"

definition exampleMakeLogEvent :: makeLogEvent where
  "exampleMakeLogEvent name u md v m se =
     JObj [(''eventName'', JStr name), (''user'', u), (''value'', v), (''metadata'', m),
           (''secondaryExposures'', (case se of None \<Rightarrow> JArr [] | Some xs \<Rightarrow> JArr xs)),
           (''statsigMetadata'', md)]"

definition exampleDetails :: EvaluationDetails where
  "exampleDetails = \<lparr> reason = ''Network'', detailsTime = 900 \<rparr>"

definition emptyReasonDetails :: EvaluationDetails where
  "emptyReasonDetails = \<lparr> reason = [], detailsTime = 900 \<rparr>"

section \<open>LogEvent\<close>

text \<open>
  \<^verbatim>\<open>setUser\<close> copies the caller's object and then mutates the copy, so objects
  are kept in an explicit store here: a reference is an index into the list of
  all objects allocated so far, and an object is its list of own properties.
  The fields \<^verbatim>\<open>time\<close> and \<^verbatim>\<open>statsigMetadata\<close> carry a prime, the plain names
  being those of \<open>FailedLogEventBody\<close>.
\<close>

datatype val = VNull | VBool bool | VNum int | VStr string | VRef nat

type_synonym obj = "(string \<times> val) list"

type_synonym heap = "obj list"

record LogEvent =
  eventName :: string
  user :: "nat option"
  "value" :: val
  metadata :: "nat option"
  time' :: int
  statsigMetadata' :: nat

text \<open>The constructor: \<^verbatim>\<open>statsigMetadata\<close> is a fresh empty object, \<open>now\<close> is \<^verbatim>\<open>Date.now()\<close>.\<close>

definition newLogEvent :: "string \<Rightarrow> int \<Rightarrow> heap \<Rightarrow> LogEvent \<times> heap" where
  "newLogEvent name now h =
     (\<lparr> eventName = name, user = None, value = VNull, metadata = None, time' = now,
        statsigMetadata' = length h \<rparr>,
      h @ [[]])"

definition getName :: "LogEvent \<Rightarrow> string" where
  "getName ev = eventName ev"

definition setValue :: "val \<Rightarrow> LogEvent \<times> heap \<Rightarrow> LogEvent \<times> heap" where
  "setValue v s = (case s of (ev, h) \<Rightarrow> (ev\<lparr>value := v\<rparr>, h))"

definition setMetadata :: "nat option \<Rightarrow> LogEvent \<times> heap \<Rightarrow> LogEvent \<times> heap" where
  "setMetadata m s = (case s of (ev, h) \<Rightarrow> (ev\<lparr>metadata := m\<rparr>, h))"

definition addStatsigMetadata :: "string \<Rightarrow> val \<Rightarrow> LogEvent \<times> heap \<Rightarrow> LogEvent \<times> heap" where
  "addStatsigMetadata k v s =
     (case s of (ev, h) \<Rightarrow>
        (ev, h[statsigMetadata' ev := setProp k v (h ! statsigMetadata' ev)]))"

text \<open>\<^verbatim>\<open>setUser(newUser)\<close>: \<^verbatim>\<open>{ ...newUser }\<close> allocates a new object holding the
  own properties of \<open>newUser\<close> (none for \<^verbatim>\<open>null\<close>); property values that are
  references are copied as references. \<^verbatim>\<open>delete\<close> then removes the property
  from the new object.\<close>

definition setUser :: "nat option \<Rightarrow> LogEvent \<times> heap \<Rightarrow> LogEvent \<times> heap" where
  "setUser newUser s =
     (case s of (ev, h) \<Rightarrow>
        let spread = (case newUser of None \<Rightarrow> [] | Some a \<Rightarrow> h ! a);
            u = length h;
            h1 = h @ [spread];
            ev1 = ev\<lparr>user := Some u\<rparr>;
            h2 = h1[u := filter (\<lambda>(k, v). k \<noteq> ''privateAttributes'') (h1 ! u)]
        in (ev1, h2))"

text \<open>\<^verbatim>\<open>toJsonObject()\<close>: the properties of the object literal it returns.\<close>

definition toJsonObject :: "LogEvent \<Rightarrow> obj" where
  "toJsonObject ev =
     [(''eventName'', VStr (eventName ev)),
      (''user'', (case user ev of None \<Rightarrow> VNull | Some u \<Rightarrow> VRef u)),
      (''value'', value ev),
      (''metadata'', (case metadata ev of None \<Rightarrow> VNull | Some m \<Rightarrow> VRef m)),
      (''time'', VNum (time' ev)),
      (''statsigMetadata'', VRef (statsigMetadata' ev))]"

text \<open>The other methods of the class, to speak of what happens to an event after
  \<^verbatim>\<open>setUser\<close>.\<close>

datatype methodCall =
    SetValue val
  | SetMetadata "nat option"
  | AddStatsigMetadata string val
  | GetName
  | ToJsonObject

fun invoke :: "methodCall \<Rightarrow> LogEvent \<times> heap \<Rightarrow> LogEvent \<times> heap" where
  "invoke (SetValue v) s = setValue v s"
| "invoke (SetMetadata m) s = setMetadata m s"
| "invoke (AddStatsigMetadata k v) s = addStatsigMetadata k v s"
| "invoke GetName s = s"
| "invoke ToJsonObject s = s"

fun invokeAll :: "methodCall list \<Rightarrow> LogEvent \<times> heap \<Rightarrow> LogEvent \<times> heap" where
  "invokeAll [] s = s"
| "invokeAll (m # ms) s = invokeAll ms (invoke m s)"

text \<open>An example store: the metadata object of an event, a user with private
  attributes, and the object holding them.\<close>

definition exampleHeap :: heap where
  "exampleHeap =
     [[],
      [(''userID'', VStr ''u1''), (''privateAttributes'', VRef 2)],
      [(''secret'', VStr ''s'')]]"

definition exampleEvent :: LogEvent where
  "exampleEvent = fst (newLogEvent ''click'' 1000 [])"

section \<open>Properties of the dedup filter\<close>

text \<open>The three things a check can do.\<close>

lemma shouldLogExposure_cases:
  "shouldLogExposure now k st = (False, st) \<or>
   shouldLogExposure now k st = (True, st) \<or>
   shouldLogExposure now k st =
     (True, st\<lparr>exposureDedupeKeys := (exposureDedupeKeys st)(k \<mapsto> now)\<rparr>)"
  by (simp add: shouldLogExposure_def writeRecord_def split: recordRead.splits)

lemma shouldLogExposure_Own:
  "exposureDedupeKeys st k = Some lastTime \<Longrightarrow>
   shouldLogExposure now k st =
     (if lastTime \<ge> now - 600000 then (False, st)
      else (True, st\<lparr>exposureDedupeKeys := (exposureDedupeKeys st)(k \<mapsto> now)\<rparr>))"
  by (simp add: shouldLogExposure_def readRecord_def writeRecord_def)

lemma shouldLogExposure_None:
  "exposureDedupeKeys st k = None \<Longrightarrow> k \<noteq> ''__proto__'' \<Longrightarrow>
   shouldLogExposure now k st =
     (True, st\<lparr>exposureDedupeKeys := (exposureDedupeKeys st)(k \<mapsto> now)\<rparr>)"
  by (simp add: shouldLogExposure_def readRecord_def writeRecord_def)

lemma shouldLogExposure_proto:
  "exposureDedupeKeys st ''__proto__'' = None \<Longrightarrow>
   shouldLogExposure now ''__proto__'' st = (True, st)"
  by (simp add: shouldLogExposure_def readRecord_def writeRecord_def objectPrototypeKeys_def)

lemma shouldLogExposure_False:
  "\<not> fst (shouldLogExposure now k st) \<Longrightarrow> snd (shouldLogExposure now k st) = st"
  using shouldLogExposure_cases [of now k st] by auto

lemma shouldLogExposure_records:
  "k \<noteq> ''__proto__'' \<Longrightarrow> fst (shouldLogExposure t0 k st) \<Longrightarrow>
   exposureDedupeKeys (snd (shouldLogExposure t0 k st)) k = Some t0"
  by (cases "exposureDedupeKeys st k")
     (auto simp: shouldLogExposure_None shouldLogExposure_Own split: if_splits)

text \<open>After a check that answered true, the key either has the time of the check
  or, being \<^verbatim>\<open>__proto__\<close>, has none.\<close>

lemma shouldLogExposure_True:
  assumes t: "fst (shouldLogExposure t0 k st)"
  shows "exposureDedupeKeys (snd (shouldLogExposure t0 k st)) k = Some t0 \<or>
   exposureDedupeKeys (snd (shouldLogExposure t0 k st)) k = None"
proof (cases "k = ''__proto__'' \<and> exposureDedupeKeys st k = None")
  case True
  then have k: "k = ''__proto__''" and n: "exposureDedupeKeys st ''__proto__'' = None"
    by auto
  from shouldLogExposure_proto [OF n, of t0] k n show ?thesis by simp
next
  case False
  show ?thesis
  proof (cases "exposureDedupeKeys st k")
    case None
    with False show ?thesis by (simp add: shouldLogExposure_None)
  next
    case (Some lastTime)
    with t show ?thesis by (auto simp: shouldLogExposure_Own split: if_splits)
  qed
qed

lemma shouldLogExposure_unrecorded:
  "exposureDedupeKeys st k = None \<Longrightarrow> fst (shouldLogExposure now k st)"
  using shouldLogExposure_None [of st k now] shouldLogExposure_proto [of st now]
  by (cases "k = ''__proto__''") auto

lemma shouldLogExposure_other_key:
  "k' \<noteq> k \<Longrightarrow> exposureDedupeKeys (snd (shouldLogExposure t k' st)) k = exposureDedupeKeys st k"
  using shouldLogExposure_cases [of t k' st] by auto

text \<open>Checks that answer false for \<open>k\<close>, and checks of other keys, leave what is
  recorded for \<open>k\<close> alone.\<close>

lemma shouldLogExposures_keeps:
  "exposureDedupeKeys st k = v \<Longrightarrow>
   \<forall>(r, (t, k')) \<in> set (zip (fst (shouldLogExposures ps st)) ps). k' = k \<longrightarrow> \<not> r \<Longrightarrow>
   exposureDedupeKeys (snd (shouldLogExposures ps st)) k = v"
proof (induction ps arbitrary: st)
  case Nil
  then show ?case by simp
next
  case (Cons p ps)
  obtain t k' where p: "p = (t, k')" by (cases p)
  obtain r st1 where s1: "shouldLogExposure t k' st = (r, st1)"
    by (cases "shouldLogExposure t k' st")
  obtain rs st2 where s2: "shouldLogExposures ps st1 = (rs, st2)"
    by (cases "shouldLogExposures ps st1")
  have keep: "exposureDedupeKeys st1 k = v"
  proof (cases "k' = k")
    case True
    with Cons.prems(2) p s1 s2 have "\<not> r" by simp
    with s1 shouldLogExposure_False [of t k' st] have "st1 = st" by simp
    with Cons.prems(1) show ?thesis by simp
  next
    case False
    with s1 Cons.prems(1) shouldLogExposure_other_key [of k' k t st] show ?thesis
      by simp
  qed
  have "\<forall>(r, (t, k')) \<in> set (zip (fst (shouldLogExposures ps st1)) ps). k' = k \<longrightarrow> \<not> r"
    using Cons.prems(2) p s1 s2 by simp
  from Cons.IH[OF keep this] show ?case using p s1 s2 by simp
qed

text \<open>For every key but \<^verbatim>\<open>__proto__\<close> the filter keeps its window: a check of a
  key that has no recorded time answers true and records the current time; a
  check at most 600 000 ms after the recorded time answers false and changes
  nothing; a later check answers true and records the current time.\<close>

lemma shouldLogExposure_ordinary_key:
  "k \<noteq> ''__proto__'' \<Longrightarrow>
   (exposureDedupeKeys st k = None \<longrightarrow>
      shouldLogExposure now k st =
        (True, st\<lparr>exposureDedupeKeys := (exposureDedupeKeys st)(k \<mapsto> now)\<rparr>)) \<and>
   (\<forall>lastTime. exposureDedupeKeys st k = Some lastTime \<and> now - lastTime \<le> 600000 \<longrightarrow>
      shouldLogExposure now k st = (False, st)) \<and>
   (\<forall>lastTime. exposureDedupeKeys st k = Some lastTime \<and> now - lastTime > 600000 \<longrightarrow>
      shouldLogExposure now k st =
        (True, st\<lparr>exposureDedupeKeys := (exposureDedupeKeys st)(k \<mapsto> now)\<rparr>))"
  by (auto simp: shouldLogExposure_None shouldLogExposure_Own)

text \<open>
  Claim C3, evaluated where the code leaves it. On a new logger the key
  \<^verbatim>\<open>__proto__\<close> is checked at 1000 and again one millisecond later: both checks
  answer true and neither records a time. The same through \<^verbatim>\<open>logConfigExposure\<close>,
  with config name \<^verbatim>\<open>__proto__\<close>, an empty rule and an empty reason: the second of
  two equal exposures, one millisecond apart, is enqueued as well.
\<close>

theorem proto_key_never_suppressed:
  "shouldLogExposure 1000 ''__proto__'' exampleLogger = (True, exampleLogger) \<and>
   shouldLogExposure 1001 ''__proto__'' (snd (shouldLogExposure 1000 ''__proto__'' exampleLogger)) =
     (True, exampleLogger) \<and>
   configDedupeKey ''__proto__'' [] emptyReasonDetails = ''__proto__'' \<and>
   length (queue (logConfigExposure exampleMakeLogEvent (teardownEnv\<lparr>dateNow := 1001\<rparr>) JNull
                    ''__proto__'' [] [] emptyReasonDetails False
                    (logConfigExposure exampleMakeLogEvent teardownEnv JNull
                       ''__proto__'' [] [] emptyReasonDetails False exampleLogger))) = 2"
proof -
  have f: "exposureDedupeKeys exampleLogger = Map.empty" "queue exampleLogger = []"
    "opts exampleLogger = exampleOptions" "identityMetadata exampleLogger = JNull"
    by (simp_all add: exampleLogger_def newLogger_def)
  have n: "exposureDedupeKeys exampleLogger ''__proto__'' = None"
    by (simp add: f)
  have k: "configDedupeKey ''__proto__'' [] emptyReasonDetails = ''__proto__''"
    by (simp add: configDedupeKey_def emptyReasonDetails_def)
  have d: "reason emptyReasonDetails = []" "detailsTime emptyReasonDetails = 900"
    by (simp_all add: emptyReasonDetails_def)
  have l: "log e ev st = st\<lparr>queue := queue st @ [ev]\<rparr>"
    if "locationHref e = None" "int (length (queue st)) + 1 < loggingBufferMaxSize (opts st)"
    for e ev st
    using that by (simp add: log_def Let_def attachCurrentPage_def)
  let ?ev = "exampleMakeLogEvent CONFIG_EXPOSURE_EVENT JNull JNull JNull
                (JObj [(''config'', JStr ''__proto__''), (''ruleID'', JStr []),
                       (''reason'', JStr []), (''time'', JNum 900)]) (Some [])"
  let ?S = "logConfigExposure exampleMakeLogEvent teardownEnv JNull
              ''__proto__'' [] [] emptyReasonDetails False exampleLogger"
  have "?S = log teardownEnv ?ev exampleLogger"
    using shouldLogExposure_proto [OF n, of "dateNow teardownEnv"]
    by (simp add: logConfigExposure_def k d f)
  also have "\<dots> = exampleLogger\<lparr>queue := [?ev]\<rparr>"
    using l [of teardownEnv exampleLogger ?ev]
    by (simp add: f teardownEnv_def exampleOptions_def)
  finally have u: "?S = exampleLogger\<lparr>queue := [?ev]\<rparr>" .
  let ?e = "teardownEnv\<lparr>dateNow := 1001\<rparr>"
  have n2: "exposureDedupeKeys (exampleLogger\<lparr>queue := [?ev]\<rparr>) ''__proto__'' = None"
    by (simp add: f)
  have "logConfigExposure exampleMakeLogEvent ?e JNull ''__proto__'' [] [] emptyReasonDetails
          False (exampleLogger\<lparr>queue := [?ev]\<rparr>) =
        log ?e ?ev (exampleLogger\<lparr>queue := [?ev]\<rparr>)"
    using shouldLogExposure_proto [OF n2, of "dateNow ?e"]
    by (simp add: logConfigExposure_def k d f)
  also have "\<dots> = exampleLogger\<lparr>queue := [?ev, ?ev]\<rparr>"
    using l [of ?e "exampleLogger\<lparr>queue := [?ev]\<rparr>" ?ev]
    by (simp add: f teardownEnv_def exampleOptions_def)
  finally have "length (queue (logConfigExposure exampleMakeLogEvent ?e JNull ''__proto__'' [] []
                              emptyReasonDetails False ?S)) = 2"
    by (simp add: u)
  with n k show ?thesis by (simp add: shouldLogExposure_proto)
qed

text \<open>
  Claim C10. A check that answers false returns the logger unchanged, so the
  recorded time of the key stays the time of its last true answer. Hence, after
  a true answer at \<open>t0\<close> and any run of further checks (of this key and of
  others) in which this key was always suppressed, a check more than 600 000 ms
  after \<open>t0\<close> answers true.
\<close>

theorem suppressed_check_keeps_timestamp:
  "(\<not> fst (shouldLogExposure now k st) \<longrightarrow> snd (shouldLogExposure now k st) = st) \<and>
   (fst (shouldLogExposure t0 k st) \<and>
    (\<forall>(r, (t, k')) \<in> set (zip (fst (shouldLogExposures ps (snd (shouldLogExposure t0 k st)))) ps).
        k' = k \<longrightarrow> \<not> r) \<and>
    now - t0 > 600000 \<longrightarrow>
    fst (shouldLogExposure now k
           (snd (shouldLogExposures ps (snd (shouldLogExposure t0 k st))))))"
proof (intro conjI impI)
  assume "\<not> fst (shouldLogExposure now k st)"
  then show "snd (shouldLogExposure now k st) = st"
    by (rule shouldLogExposure_False)
next
  let ?st1 = "snd (shouldLogExposure t0 k st)"
  let ?st2 = "snd (shouldLogExposures ps ?st1)"
  assume a: "fst (shouldLogExposure t0 k st) \<and>
    (\<forall>(r, (t, k')) \<in> set (zip (fst (shouldLogExposures ps ?st1)) ps). k' = k \<longrightarrow> \<not> r) \<and>
    now - t0 > 600000"
  then have keep: "exposureDedupeKeys ?st2 k = exposureDedupeKeys ?st1 k"
    by (intro shouldLogExposures_keeps) auto
  from a have "exposureDedupeKeys ?st1 k = Some t0 \<or> exposureDedupeKeys ?st1 k = None"
    by (simp add: shouldLogExposure_True)
  then show "fst (shouldLogExposure now k ?st2)"
  proof
    assume "exposureDedupeKeys ?st1 k = Some t0"
    with keep a show ?thesis by (simp add: shouldLogExposure_Own)
  next
    assume "exposureDedupeKeys ?st1 k = None"
    with keep show ?thesis by (simp add: shouldLogExposure_unrecorded)
  qed
qed

theorem suppressed_check_keeps_timestamp_witness:
  "\<not> fst (shouldLogExposure 2000 ''k'' (exampleLogger\<lparr>exposureDedupeKeys := [''k'' \<mapsto> 1000]\<rparr>)) \<and>
   snd (shouldLogExposure 2000 ''k'' (exampleLogger\<lparr>exposureDedupeKeys := [''k'' \<mapsto> 1000]\<rparr>)) =
     exampleLogger\<lparr>exposureDedupeKeys := [''k'' \<mapsto> 1000]\<rparr> \<and>
   fst (shouldLogExposure 1000 ''k'' exampleLogger) \<and>
   fst (shouldLogExposures [(2000, ''k''), (3000, ''j''), (601000, ''k'')]
          (snd (shouldLogExposure 1000 ''k'' exampleLogger))) = [False, True, False] \<and>
   (601001::int) - 1000 > 600000 \<and>
   fst (shouldLogExposure 601001 ''k''
          (snd (shouldLogExposures [(2000, ''k''), (3000, ''j''), (601000, ''k'')]
                  (snd (shouldLogExposure 1000 ''k'' exampleLogger)))))"
  using suppressed_check_keeps_timestamp
          [of 2000 "''k''" "exampleLogger\<lparr>exposureDedupeKeys := [''k'' \<mapsto> 1000]\<rparr>"
              1000 "[(2000, ''k''), (3000, ''j''), (601000, ''k'')]"]
        suppressed_check_keeps_timestamp
          [of 601001 "''k''" exampleLogger 1000 "[(2000, ''k''), (3000, ''j''), (601000, ''k'')]"]
  by (simp add: shouldLogExposure_def readRecord_def writeRecord_def objectPrototypeKeys_def
        exampleLogger_def newLogger_def)

section \<open>Properties of the startup replay\<close>

lemma savedRequestsSettled_localStorage:
  "localStorage (savedRequestsSettled ff rs st) = localStorage st"
  by (induction ff rs st rule: savedRequestsSettled.induct)
     (auto simp: savedRequestCatch_def addFailedRequest_def Let_def)

lemma sendSavedRequests_clears:
  "localStorage (sendSavedRequests parse st) STATSIG_LOCAL_STORAGE_LOGGING_REQUEST_KEY = None"
  by (simp add: sendSavedRequests_def clearLocalStorageRequests_def split: option.splits)

text \<open>
  Claim C4. Whatever the durable substrate holds under the key (nothing, a
  string that does not parse, a value that cannot be iterated, any sequence of
  batches), the key is absent when \<^verbatim>\<open>sendSavedRequests\<close> returns, and it is
  still absent after the posts of the replay have settled, however they end.
\<close>

theorem replay_clears_persisted_key:
  "localStorage (sendSavedRequests parse st) STATSIG_LOCAL_STORAGE_LOGGING_REQUEST_KEY = None \<and>
   localStorage (replayOnce parse results st) STATSIG_LOCAL_STORAGE_LOGGING_REQUEST_KEY = None"
  by (simp add: sendSavedRequests_clears replayOnce_def savedRequestsSettled_localStorage
           split: option.splits)

theorem replay_clears_persisted_key_witness:
  "localStorage
     (replayOnce (\<lambda>s. Some (JArr [savedBody])) [(False, 1000)]
        (exampleLogger\<lparr>localStorage := [STATSIG_LOCAL_STORAGE_LOGGING_REQUEST_KEY \<mapsto> ''[{}]'']\<rparr>))
     STATSIG_LOCAL_STORAGE_LOGGING_REQUEST_KEY = None \<and>
   localStorage
     (replayOnce (\<lambda>s. None) []
        (exampleLogger\<lparr>localStorage := [STATSIG_LOCAL_STORAGE_LOGGING_REQUEST_KEY \<mapsto> ''{'']\<rparr>))
     STATSIG_LOCAL_STORAGE_LOGGING_REQUEST_KEY = None \<and>
   localStorage (replayOnce (\<lambda>s. None) [] exampleLogger)
     STATSIG_LOCAL_STORAGE_LOGGING_REQUEST_KEY = None"
  using replay_clears_persisted_key by simp

lemma savedRequestsSettled_ff:
  "savedRequestsSettled True rs st = st"
  by (induction rs arbitrary: st) (auto simp: savedRequestCatch_def)

lemma sendSavedRequests_store:
  "failedLogEvents (sendSavedRequests parse st) = failedLogEvents st \<and>
   failedLogEventCount (sendSavedRequests parse st) = failedLogEventCount st"
  by (simp add: sendSavedRequests_def clearLocalStorageRequests_def split: option.splits)

text \<open>
  Claim C7. When the persisted payload is longer than the threshold, the handler
  of a failed replay post returns the logger as it is, and a whole replay leaves
  the failure store and its event count as they were, whatever the posts
  answer. When the payload is at most the threshold, the handler of a failed
  post is \<^verbatim>\<open>_addFailedRequest\<close> on that body, with its bounds, and a whole replay
  is the synchronous part followed by these adds for the posts that failed.
\<close>

theorem replay_fire_and_forget:
  "(localStorage st STATSIG_LOCAL_STORAGE_LOGGING_REQUEST_KEY = Some failedRequests \<and>
    length failedRequests > MAX_LOCAL_STORAGE_SIZE \<longrightarrow>
      savedRequestCatch (fireAndForget failedRequests) t requestBody st1 = st1 \<and>
      failedLogEvents (replayOnce parse results st) = failedLogEvents st \<and>
      failedLogEventCount (replayOnce parse results st) = failedLogEventCount st) \<and>
   (localStorage st STATSIG_LOCAL_STORAGE_LOGGING_REQUEST_KEY = Some failedRequests \<and>
    length failedRequests \<le> MAX_LOCAL_STORAGE_SIZE \<longrightarrow>
      savedRequestCatch (fireAndForget failedRequests) t requestBody st1 =
        addFailedRequest t (asFailedLogEventBody requestBody) st1 \<and>
      replayOnce parse results st =
        fold (\<lambda>(requestBody, ok, t) s.
                if ok then s else addFailedRequest t (asFailedLogEventBody requestBody) s)
          (zip (savedRequestBodies parse failedRequests) results)
          (sendSavedRequests parse st))"
proof (intro conjI impI)
  assume a: "localStorage st STATSIG_LOCAL_STORAGE_LOGGING_REQUEST_KEY = Some failedRequests \<and>
    length failedRequests > MAX_LOCAL_STORAGE_SIZE"
  then have ff: "fireAndForget failedRequests" by (simp add: fireAndForget_def)
  then show "savedRequestCatch (fireAndForget failedRequests) t requestBody st1 = st1"
    by (simp add: savedRequestCatch_def)
  from a ff have r: "replayOnce parse results st = sendSavedRequests parse st"
    by (simp add: replayOnce_def savedRequestsSettled_ff)
  show "failedLogEvents (replayOnce parse results st) = failedLogEvents st"
    by (simp add: r sendSavedRequests_store)
  show "failedLogEventCount (replayOnce parse results st) = failedLogEventCount st"
    by (simp add: r sendSavedRequests_store)
next
  assume a: "localStorage st STATSIG_LOCAL_STORAGE_LOGGING_REQUEST_KEY = Some failedRequests \<and>
    length failedRequests \<le> MAX_LOCAL_STORAGE_SIZE"
  then have ff: "\<not> fireAndForget failedRequests" by (simp add: fireAndForget_def)
  then show "savedRequestCatch (fireAndForget failedRequests) t requestBody st1 =
        addFailedRequest t (asFailedLogEventBody requestBody) st1"
    by (simp add: savedRequestCatch_def)
  have "savedRequestsSettled False rs s =
        fold (\<lambda>(requestBody, ok, t) s.
                if ok then s else addFailedRequest t (asFailedLogEventBody requestBody) s) rs s"
    for rs s
    by (induction rs arbitrary: s) (auto simp: savedRequestCatch_def)
  with a ff show "replayOnce parse results st =
        fold (\<lambda>(requestBody, ok, t) s.
                if ok then s else addFailedRequest t (asFailedLogEventBody requestBody) s)
          (zip (savedRequestBodies parse failedRequests) results)
          (sendSavedRequests parse st)"
    by (simp add: replayOnce_def)
qed

theorem replay_fire_and_forget_witness:
  "length (replicate 1024001 CHR ''x'') > MAX_LOCAL_STORAGE_SIZE \<and>
   failedLogEvents
     (replayOnce (\<lambda>s. Some (JArr [savedBody])) [(False, 1000)]
        (exampleLogger\<lparr>localStorage :=
           [STATSIG_LOCAL_STORAGE_LOGGING_REQUEST_KEY \<mapsto> replicate 1024001 CHR ''x'']\<rparr>)) = [] \<and>
   length ''[{}]'' \<le> MAX_LOCAL_STORAGE_SIZE \<and>
   failedLogEvents
     (replayOnce (\<lambda>s. Some (JArr [savedBody])) [(False, 1000)]
        (exampleLogger\<lparr>localStorage :=
           [STATSIG_LOCAL_STORAGE_LOGGING_REQUEST_KEY \<mapsto> ''[{}]'']\<rparr>)) =
     [\<lparr>events = [click], statsigMetadata = JNull, time = Number 900\<rparr>]"
  using replay_fire_and_forget
          [of "exampleLogger\<lparr>localStorage :=
                 [STATSIG_LOCAL_STORAGE_LOGGING_REQUEST_KEY \<mapsto> replicate 1024001 CHR ''x'']\<rparr>"
              "replicate 1024001 CHR ''x''" 1000 savedBody exampleLogger
              "\<lambda>s. Some (JArr [savedBody])" "[(False, 1000)]"]
        replay_fire_and_forget
          [of "exampleLogger\<lparr>localStorage :=
                 [STATSIG_LOCAL_STORAGE_LOGGING_REQUEST_KEY \<mapsto> ''[{}]'']\<rparr>"
              "''[{}]''" 1000 savedBody exampleLogger
              "\<lambda>s. Some (JArr [savedBody])" "[(False, 1000)]"]
  by (simp add: MAX_LOCAL_STORAGE_SIZE_def MAX_FAILED_EVENTS_def MAX_BATCHES_TO_RETRY_def
        MS_RETRY_LOGS_CUTOFF_def exampleLogger_def newLogger_def savedRequestBodies_def
        isRequestBody_def savedBody_def sendSavedRequests_def clearLocalStorageRequests_def
        addFailedRequest_def asFailedLogEventBody_def)

section \<open>Properties of the exposure keys\<close>

lemma saveFailedRequests_keys:
  "exposureDedupeKeys (saveFailedRequests sf st) = exposureDedupeKeys st"
  by (simp add: saveFailedRequests_def clearLocalStorageRequests_def Let_def)

lemma addFailedRequest_keys:
  "exposureDedupeKeys (addFailedRequest t b st) = exposureDedupeKeys st"
  by (simp add: addFailedRequest_def Let_def)

lemma flush_keys: "exposureDedupeKeys (flush e c st) = exposureDedupeKeys st"
  by (simp add: flush_def Let_def saveFailedRequests_keys addFailedRequest_keys)

lemma log_keys: "exposureDedupeKeys (log e ev st) = exposureDedupeKeys st"
  by (simp add: log_def Let_def flush_keys)

lemma logConfigExposure_suppressed:
  "exposureDedupeKeys st (configDedupeKey c r d) = Some t0 \<Longrightarrow> dateNow e - t0 \<le> 600000 \<Longrightarrow>
   logConfigExposure mk e u c r se d m st = st"
  by (simp add: logConfigExposure_def shouldLogExposure_Own)

lemma logConfigExposure_records:
  assumes "configDedupeKey c r d \<noteq> ''__proto__''"
    "fst (shouldLogExposure (dateNow e) (configDedupeKey c r d) st)"
  shows "exposureDedupeKeys (logConfigExposure mk e u c r se d m st) (configDedupeKey c r d) =
     Some (dateNow e)"
proof -
  obtain ok st1 where s: "shouldLogExposure (dateNow e) (configDedupeKey c r d) st = (ok, st1)"
    by (cases "shouldLogExposure (dateNow e) (configDedupeKey c r d) st")
  with assms(2) have ok: "ok" by simp
  from shouldLogExposure_records [OF assms] s
  have "exposureDedupeKeys st1 (configDedupeKey c r d) = Some (dateNow e)" by simp
  with s ok show ?thesis
    by (simp add: logConfigExposure_def Let_def log_keys)
qed

lemma logGateExposure_suppressed:
  "exposureDedupeKeys st (gateDedupeKey g v r d) = Some t0 \<Longrightarrow> dateNow e - t0 \<le> 600000 \<Longrightarrow>
   logGateExposure mk e u g v r se d m st = st"
  by (simp add: logGateExposure_def shouldLogExposure_Own)

lemma logGateExposure_records:
  assumes "gateDedupeKey g v r d \<noteq> ''__proto__''"
    "fst (shouldLogExposure (dateNow e) (gateDedupeKey g v r d) st)"
  shows "exposureDedupeKeys (logGateExposure mk e u g v r se d m st) (gateDedupeKey g v r d) =
     Some (dateNow e)"
proof -
  obtain ok st1 where s: "shouldLogExposure (dateNow e) (gateDedupeKey g v r d) st = (ok, st1)"
    by (cases "shouldLogExposure (dateNow e) (gateDedupeKey g v r d) st")
  with assms(2) have ok: "ok" by simp
  from shouldLogExposure_records [OF assms] s
  have "exposureDedupeKeys st1 (gateDedupeKey g v r d) = Some (dateNow e)" by simp
  with s ok show ?thesis
    by (simp add: logGateExposure_def Let_def log_keys)
qed

text \<open>
  Claim C9. The config exposures (ab, c, reason) and (a, bc, reason) are
  different and have the same dedupe key, and so have the gate exposures
  (xtrue, true, y, reason) and (x, true, truey, reason). In both cases, when the
  first exposure is logged and the second one comes at most 600 000 ms later,
  the second call returns the logger unchanged: no event is enqueued for it.
\<close>

theorem distinct_exposures_share_dedupe_key:
  "(''ab'', ''c'', reason d) \<noteq> (''a'', ''bc'', reason d) \<and>
   configDedupeKey ''ab'' ''c'' d = configDedupeKey ''a'' ''bc'' d \<and>
   (fst (shouldLogExposure (dateNow e1) (configDedupeKey ''ab'' ''c'' d) st) \<and>
    dateNow e2 - dateNow e1 \<le> 600000 \<longrightarrow>
      logConfigExposure mk e2 u2 ''a'' ''bc'' se2 d m2
        (logConfigExposure mk e1 u1 ''ab'' ''c'' se1 d m1 st) =
      logConfigExposure mk e1 u1 ''ab'' ''c'' se1 d m1 st) \<and>
   (''xtrue'', True, ''y'', reason d) \<noteq> (''x'', True, ''truey'', reason d) \<and>
   gateDedupeKey ''xtrue'' True ''y'' d = gateDedupeKey ''x'' True ''truey'' d \<and>
   (fst (shouldLogExposure (dateNow e1) (gateDedupeKey ''xtrue'' True ''y'' d) st) \<and>
    dateNow e2 - dateNow e1 \<le> 600000 \<longrightarrow>
      logGateExposure mk e2 u2 ''x'' True ''truey'' se2 d m2
        (logGateExposure mk e1 u1 ''xtrue'' True ''y'' se1 d m1 st) =
      logGateExposure mk e1 u1 ''xtrue'' True ''y'' se1 d m1 st)"
proof -
  have ck: "configDedupeKey ''ab'' ''c'' d = configDedupeKey ''a'' ''bc'' d"
    by (simp add: configDedupeKey_def)
  have gk: "gateDedupeKey ''xtrue'' True ''y'' d = gateDedupeKey ''x'' True ''truey'' d"
    by (simp add: gateDedupeKey_def String_bool_def)
  have c: "logConfigExposure mk e2 u2 ''a'' ''bc'' se2 d m2
        (logConfigExposure mk e1 u1 ''ab'' ''c'' se1 d m1 st) =
      logConfigExposure mk e1 u1 ''ab'' ''c'' se1 d m1 st"
    if "fst (shouldLogExposure (dateNow e1) (configDedupeKey ''ab'' ''c'' d) st) \<and>
        dateNow e2 - dateNow e1 \<le> 600000"
  proof -
    have "configDedupeKey ''ab'' ''c'' d \<noteq> ''__proto__''"
      by (simp add: configDedupeKey_def)
    with that have "exposureDedupeKeys (logConfigExposure mk e1 u1 ''ab'' ''c'' se1 d m1 st)
        (configDedupeKey ''a'' ''bc'' d) = Some (dateNow e1)"
      using logConfigExposure_records [of "''ab''" "''c''" d e1 st] ck by simp
    with that show ?thesis by (intro logConfigExposure_suppressed) auto
  qed
  have g: "logGateExposure mk e2 u2 ''x'' True ''truey'' se2 d m2
        (logGateExposure mk e1 u1 ''xtrue'' True ''y'' se1 d m1 st) =
      logGateExposure mk e1 u1 ''xtrue'' True ''y'' se1 d m1 st"
    if "fst (shouldLogExposure (dateNow e1) (gateDedupeKey ''xtrue'' True ''y'' d) st) \<and>
        dateNow e2 - dateNow e1 \<le> 600000"
  proof -
    have "gateDedupeKey ''xtrue'' True ''y'' d \<noteq> ''__proto__''"
      by (simp add: gateDedupeKey_def)
    with that have "exposureDedupeKeys (logGateExposure mk e1 u1 ''xtrue'' True ''y'' se1 d m1 st)
        (gateDedupeKey ''x'' True ''truey'' d) = Some (dateNow e1)"
      using logGateExposure_records [of "''xtrue''" True "''y''" d e1 st] gk by simp
    with that show ?thesis by (intro logGateExposure_suppressed) auto
  qed
  from ck gk c g show ?thesis by simp
qed

theorem distinct_exposures_share_dedupe_key_witness:
  "fst (shouldLogExposure (dateNow teardownEnv)
          (configDedupeKey ''ab'' ''c'' exampleDetails) exampleLogger) \<and>
   dateNow (teardownEnv\<lparr>dateNow := 2000\<rparr>) - dateNow teardownEnv \<le> 600000 \<and>
   length (queue (logConfigExposure exampleMakeLogEvent teardownEnv JNull ''ab'' ''c'' []
                    exampleDetails False exampleLogger)) = 1 \<and>
   length (queue (logConfigExposure exampleMakeLogEvent (teardownEnv\<lparr>dateNow := 2000\<rparr>) JNull
                    ''a'' ''bc'' [] exampleDetails False
                    (logConfigExposure exampleMakeLogEvent teardownEnv JNull ''ab'' ''c'' []
                       exampleDetails False exampleLogger))) = 1 \<and>
   fst (shouldLogExposure (dateNow teardownEnv)
          (gateDedupeKey ''xtrue'' True ''y'' exampleDetails) exampleLogger) \<and>
   length (queue (logGateExposure exampleMakeLogEvent teardownEnv JNull ''xtrue'' True ''y'' []
                    exampleDetails False exampleLogger)) = 1 \<and>
   length (queue (logGateExposure exampleMakeLogEvent (teardownEnv\<lparr>dateNow := 2000\<rparr>) JNull
                    ''x'' True ''truey'' [] exampleDetails False
                    (logGateExposure exampleMakeLogEvent teardownEnv JNull ''xtrue'' True ''y'' []
                       exampleDetails False exampleLogger))) = 1"
proof -
  have c1: "fst (shouldLogExposure (dateNow teardownEnv)
          (configDedupeKey ''ab'' ''c'' exampleDetails) exampleLogger)"
    by (simp add: shouldLogExposure_unrecorded exampleLogger_def newLogger_def)
  have g1: "fst (shouldLogExposure (dateNow teardownEnv)
          (gateDedupeKey ''xtrue'' True ''y'' exampleDetails) exampleLogger)"
    by (simp add: shouldLogExposure_unrecorded exampleLogger_def newLogger_def)
  have w: "dateNow (teardownEnv\<lparr>dateNow := 2000\<rparr>) - dateNow teardownEnv \<le> 600000"
    by (simp add: teardownEnv_def)
  have qc: "length (queue (logConfigExposure exampleMakeLogEvent teardownEnv JNull ''ab'' ''c'' []
                    exampleDetails False exampleLogger)) = 1"
    by (simp add: logConfigExposure_def shouldLogExposure_None configDedupeKey_def
          exampleLogger_def newLogger_def log_def exampleOptions_def Let_def)
  have qg: "length (queue (logGateExposure exampleMakeLogEvent teardownEnv JNull ''xtrue'' True
                    ''y'' [] exampleDetails False exampleLogger)) = 1"
    by (simp add: logGateExposure_def shouldLogExposure_None gateDedupeKey_def
          exampleLogger_def newLogger_def log_def exampleOptions_def Let_def)
  from c1 g1 w qc qg
    distinct_exposures_share_dedupe_key
      [of exampleDetails teardownEnv exampleLogger "teardownEnv\<lparr>dateNow := 2000\<rparr>"
          exampleMakeLogEvent JNull "[]" False JNull "[]" False]
  show ?thesis by simp
qed

section \<open>Properties of the queue\<close>

lemma flushedBatches_append:
  "flushedBatches (xs @ ys) = flushedBatches xs @ flushedBatches ys"
  by (induction xs rule: flushedBatches.induct) auto

lemma saveFailedRequests_frame:
  "queue (saveFailedRequests sf st) = queue st"
  "calls (saveFailedRequests sf st) = calls st"
  "opts (saveFailedRequests sf st) = opts st"
  "failedLogEvents (saveFailedRequests sf st) = failedLogEvents st"
  "failedLogEventCount (saveFailedRequests sf st) = failedLogEventCount st"
  "loggedErrors (saveFailedRequests sf st) = loggedErrors st"
  "identityMetadata (saveFailedRequests sf st) = identityMetadata st"
  by (simp_all add: saveFailedRequests_def clearLocalStorageRequests_def Let_def)

lemma addFailedRequest_frame:
  "queue (addFailedRequest t b st) = queue st"
  "calls (addFailedRequest t b st) = calls st"
  "opts (addFailedRequest t b st) = opts st"
  "loggedErrors (addFailedRequest t b st) = loggedErrors st"
  "localStorage (addFailedRequest t b st) = localStorage st"
  "identityMetadata (addFailedRequest t b st) = identityMetadata st"
  by (simp_all add: addFailedRequest_def Let_def)

lemma flush_empty: "queue st = [] \<Longrightarrow> flush e isClosing st = st"
  by (simp add: flush_def)

lemma flush_queue: "queue (flush e isClosing st) = []"
  by (simp add: flush_def Let_def saveFailedRequests_frame addFailedRequest_frame)

lemma flush_calls:
  "queue st \<noteq> [] \<Longrightarrow>
   calls (flush e isClosing st) =
     calls st @
       [if isClosing \<and> \<not> supportsKeepalive e \<and> navigatorSendBeacon e
        then SendLogBeacon (queue st) (identityMetadata st)
        else PostToEndpoint (queue st) (identityMetadata st) 3 1000 isClosing]"
  by (simp add: flush_def Let_def saveFailedRequests_frame addFailedRequest_frame)

lemma flush_opts: "opts (flush e isClosing st) = opts st"
  by (simp add: flush_def Let_def saveFailedRequests_frame addFailedRequest_frame)

lemma flush_conserves:
  "concat (flushedBatches (calls (flush e isClosing st))) @ queue (flush e isClosing st) =
   concat (flushedBatches (calls st)) @ queue st"
proof (cases "queue st = []")
  case True
  then show ?thesis by (simp add: flush_empty)
next
  case False
  then show ?thesis by (simp add: flush_calls flush_queue flushedBatches_append)
qed

lemma log_opts: "opts (log e ev st) = opts st"
  by (simp add: log_def Let_def flush_opts)

lemma log_conserves:
  "concat (flushedBatches (calls (log e ev st))) @ queue (log e ev st) =
   concat (flushedBatches (calls st)) @ queue st @ [attachCurrentPage e (opts st) ev]"
  by (simp add: log_def Let_def flush_conserves)

lemma queueRun_opts: "opts (queueRun ops st) = opts st"
proof (induction ops arbitrary: st)
  case Nil
  then show ?case by simp
next
  case (Cons x xs)
  obtain e q where x: "x = (e, q)" by (cases x)
  show ?case using Cons.IH x by (cases q) (simp_all add: log_opts flush_opts)
qed

lemma queueRun_conserves:
  "concat (flushedBatches (calls (queueRun ops st))) @ queue (queueRun ops st) =
   concat (flushedBatches (calls st)) @ queue st @ enqueued (opts st) ops"
proof (induction ops arbitrary: st)
  case Nil
  then show ?case by simp
next
  case (Cons x xs)
  obtain e q where x: "x = (e, q)" by (cases x)
  show ?case
  proof (cases q)
    case (Log ev)
    with x Cons.IH [of "log e ev st"] show ?thesis
      by (simp add: log_conserves log_opts)
  next
    case (Flush c)
    with x Cons.IH [of "flush e c st"] show ?thesis
      by (simp add: flush_conserves flush_opts)
  qed
qed

text \<open>
  Claim C5. With an empty queue \<open>flush\<close> returns the logger as it is. With a
  queue that is not empty, the queue is empty afterwards and exactly one call is
  made on the transport, a post or a beacon, that carries the whole former queue
  in its order. Over every run of \<open>log\<close> and \<open>flush\<close> calls, the batches handed to
  the transport, one after the other, followed by what is still queued, are
  exactly the events that were there before followed by the events enqueued, in
  order: no enqueued event is in two batches.
\<close>

theorem flush_drains_whole_queue:
  "(queue st = [] \<longrightarrow> flush e isClosing st = st) \<and>
   (queue st \<noteq> [] \<longrightarrow>
      queue (flush e isClosing st) = [] \<and>
      calls (flush e isClosing st) =
        calls st @
          [if isClosing \<and> \<not> supportsKeepalive e \<and> navigatorSendBeacon e
           then SendLogBeacon (queue st) (identityMetadata st)
           else PostToEndpoint (queue st) (identityMetadata st) 3 1000 isClosing] \<and>
      flushedBatches (calls (flush e isClosing st)) = flushedBatches (calls st) @ [queue st]) \<and>
   concat (flushedBatches (calls (queueRun ops st))) @ queue (queueRun ops st) =
     concat (flushedBatches (calls st)) @ queue st @ enqueued (opts st) ops"
  by (simp add: flush_empty flush_queue flush_calls flushedBatches_append queueRun_conserves)

theorem flush_drains_whole_queue_witness:
  "queue exampleLogger = [] \<and> flush teardownEnv False exampleLogger = exampleLogger \<and>
   queue (queueRun [(teardownEnv, Log click), (teardownEnv, Log view)] exampleLogger) \<noteq> [] \<and>
   flushedBatches (calls (queueRun [(teardownEnv, Log click), (teardownEnv, Log view),
                                    (teardownEnv, Flush False), (teardownEnv, Log click),
                                    (teardownEnv, Flush True)] exampleLogger)) =
     [[click, view], [click]] \<and>
   queue (queueRun [(teardownEnv, Log click), (teardownEnv, Log view),
                    (teardownEnv, Flush False), (teardownEnv, Log click),
                    (teardownEnv, Flush True)] exampleLogger) = []"
  using flush_drains_whole_queue [of exampleLogger teardownEnv False "[]"]
    flush_drains_whole_queue
      [of "queueRun [(teardownEnv, Log click), (teardownEnv, Log view)] exampleLogger"
          teardownEnv False "[]"]
  by (simp add: exampleLogger_def newLogger_def exampleOptions_def teardownEnv_def log_def
        flush_def attachCurrentPage_def Let_def addFailedRequest_def saveFailedRequests_def
        MS_RETRY_LOGS_CUTOFF_def MAX_BATCHES_TO_RETRY_def MAX_FAILED_EVENTS_def
        MAX_LOCAL_STORAGE_SIZE_def)

section \<open>Properties of the failure store and of delivery\<close>

lemma fold_log:
  "int (length (queue st) + length evs) < loggingBufferMaxSize (opts st) \<Longrightarrow>
   fold (log e) evs st = st\<lparr>queue := queue st @ map (attachCurrentPage e (opts st)) evs\<rparr>"
proof (induction evs arbitrary: st)
  case Nil
  then show ?case by simp
next
  case (Cons ev evs)
  from Cons.prems have l: "log e ev st = st\<lparr>queue := queue st @ [attachCurrentPage e (opts st) ev]\<rparr>"
    by (simp add: log_def Let_def)
  from Cons.prems show ?case
    by (simp add: l Cons.IH)
qed

lemma age_check_now: "\<not> lessThan_js (Number t) (t - MS_RETRY_LOGS_CUTOFF)"
  by (simp add: MS_RETRY_LOGS_CUTOFF_def)

lemma addFailedRequest_queue:
  "(addFailedRequest t b st)\<lparr>queue := q\<rparr> = addFailedRequest t b (st\<lparr>queue := q\<rparr>)"
  by (cases st) (simp add: addFailedRequest_def Let_def)

lemma flush_beacon_refused:
  assumes "queue st \<noteq> []" "\<not> supportsKeepalive e" "navigatorSendBeacon e" "\<not> sendLogBeacon e"
  shows "flush e True st =
     saveFailedRequests (stringify e)
       (addFailedRequest (dateNow e)
          \<lparr>events = queue st, statsigMetadata = identityMetadata st, time = Number (dateNow e)\<rparr>
          (st\<lparr>calls := calls st @ [SendLogBeacon (queue st) (identityMetadata st)],
               queue := []\<rparr>))"
  using assms by (simp add: flush_def Let_def addFailedRequest_queue)

lemma addFailedRequest_accepts:
  "\<not> lessThan_js (time b) (t - MS_RETRY_LOGS_CUTOFF) \<Longrightarrow> length (failedLogEvents st) \<le> 100 \<Longrightarrow>
   failedLogEventCount st + length (events b) \<le> 1000 \<Longrightarrow>
   addFailedRequest t b st =
     st\<lparr>failedLogEvents := failedLogEvents st @ [b],
        failedLogEventCount := failedLogEventCount st + length (events b)\<rparr>"
  by (simp add: addFailedRequest_def MAX_BATCHES_TO_RETRY_def MAX_FAILED_EVENTS_def Let_def)

lemma addFailedRequest_rejects:
  "lessThan_js (time b) (t - MS_RETRY_LOGS_CUTOFF) \<or> length (failedLogEvents st) > 100 \<or>
   failedLogEventCount st + length (events b) > 1000 \<Longrightarrow>
   addFailedRequest t b st = st"
  by (auto simp: addFailedRequest_def MAX_BATCHES_TO_RETRY_def MAX_FAILED_EVENTS_def Let_def)

text \<open>
  Claim C6, as amended. In a terminating flush of a queue that is not empty,
  with a transport without keepalive and a beacon that is refused, the whole
  queue is offered to \<^verbatim>\<open>_addFailedRequest\<close> as one batch stamped with the current
  time, the queue is emptied and \<^verbatim>\<open>_saveFailedRequests\<close> runs, all before \<open>flush\<close>
  returns. The batch is stored when the store holds fewer than 100 batches and
  the event count of the logger stays within 1000; \<^verbatim>\<open>_saveFailedRequests\<close> then
  does with the store what it always does: it writes the serialized store under
  the key, or removes the key and writes nothing when the serialization is
  longer than \<open>MAX_LOCAL_STORAGE_SIZE\<close>. With more than 100 batches in the
  store, or with an event count that would pass 1000, the store is left as it
  was and the events are lost.
\<close>

theorem terminating_flush_falls_back:
  "queue st \<noteq> [] \<and> \<not> supportsKeepalive e \<and> navigatorSendBeacon e \<and> \<not> sendLogBeacon e \<longrightarrow>
     flush e True st =
       saveFailedRequests (stringify e)
         (addFailedRequest (dateNow e)
            \<lparr>events = queue st, statsigMetadata = identityMetadata st, time = Number (dateNow e)\<rparr>
            (st\<lparr>calls := calls st @ [SendLogBeacon (queue st) (identityMetadata st)],
                 queue := []\<rparr>)) \<and>
     queue (flush e True st) = [] \<and>
     (length (failedLogEvents st) < 100 \<and> failedLogEventCount st + length (queue st) \<le> 1000 \<longrightarrow>
        failedLogEvents (flush e True st) =
          failedLogEvents st @
            [\<lparr>events = queue st, statsigMetadata = identityMetadata st,
              time = Number (dateNow e)\<rparr>] \<and>
        failedLogEventCount (flush e True st) = failedLogEventCount st + length (queue st) \<and>
        localStorage (flush e True st) STATSIG_LOCAL_STORAGE_LOGGING_REQUEST_KEY =
          (let requestsCopy = stringify e (JArr (map jsonOfBody (failedLogEvents (flush e True st))))
           in if length requestsCopy > MAX_LOCAL_STORAGE_SIZE then None else Some requestsCopy)) \<and>
     (length (failedLogEvents st) > 100 \<or> failedLogEventCount st + length (queue st) > 1000 \<longrightarrow>
        failedLogEvents (flush e True st) = failedLogEvents st \<and>
        failedLogEventCount (flush e True st) = failedLogEventCount st)"
proof (intro impI)
  assume a: "queue st \<noteq> [] \<and> \<not> supportsKeepalive e \<and> navigatorSendBeacon e \<and> \<not> sendLogBeacon e"
  let ?b = "\<lparr>events = queue st, statsigMetadata = identityMetadata st, time = Number (dateNow e)\<rparr>"
  let ?st1 = "st\<lparr>calls := calls st @ [SendLogBeacon (queue st) (identityMetadata st)], queue := []\<rparr>"
  from a have eq: "flush e True st =
      saveFailedRequests (stringify e) (addFailedRequest (dateNow e) ?b ?st1)"
    by (simp add: flush_beacon_refused)
  have q: "queue (flush e True st) = []"
    by (simp add: flush_queue)
  have acc: "failedLogEvents (flush e True st) = failedLogEvents st @ [?b] \<and>
        failedLogEventCount (flush e True st) = failedLogEventCount st + length (queue st) \<and>
        localStorage (flush e True st) STATSIG_LOCAL_STORAGE_LOGGING_REQUEST_KEY =
          (let requestsCopy = stringify e (JArr (map jsonOfBody (failedLogEvents (flush e True st))))
           in if length requestsCopy > MAX_LOCAL_STORAGE_SIZE then None else Some requestsCopy)"
    if "length (failedLogEvents st) < 100 \<and> failedLogEventCount st + length (queue st) \<le> 1000"
  proof -
    from that have "addFailedRequest (dateNow e) ?b ?st1 =
        ?st1\<lparr>failedLogEvents := failedLogEvents st @ [?b],
             failedLogEventCount := failedLogEventCount st + length (queue st)\<rparr>"
      using addFailedRequest_accepts [of ?b "dateNow e" ?st1] age_check_now [of "dateNow e"]
      by simp
    then show ?thesis
      by (simp add: eq saveFailedRequests_def clearLocalStorageRequests_def Let_def)
  qed
  have rej: "failedLogEvents (flush e True st) = failedLogEvents st \<and>
        failedLogEventCount (flush e True st) = failedLogEventCount st"
    if "length (failedLogEvents st) > 100 \<or> failedLogEventCount st + length (queue st) > 1000"
  proof -
    from that have "addFailedRequest (dateNow e) ?b ?st1 = ?st1"
      by (intro addFailedRequest_rejects) auto
    then show ?thesis
      by (simp add: eq saveFailedRequests_frame)
  qed
  from eq q acc rej show "flush e True st =
       saveFailedRequests (stringify e) (addFailedRequest (dateNow e) ?b ?st1) \<and>
     queue (flush e True st) = [] \<and>
     (length (failedLogEvents st) < 100 \<and> failedLogEventCount st + length (queue st) \<le> 1000 \<longrightarrow>
        failedLogEvents (flush e True st) = failedLogEvents st @ [?b] \<and>
        failedLogEventCount (flush e True st) = failedLogEventCount st + length (queue st) \<and>
        localStorage (flush e True st) STATSIG_LOCAL_STORAGE_LOGGING_REQUEST_KEY =
          (let requestsCopy = stringify e (JArr (map jsonOfBody (failedLogEvents (flush e True st))))
           in if length requestsCopy > MAX_LOCAL_STORAGE_SIZE then None else Some requestsCopy)) \<and>
     (length (failedLogEvents st) > 100 \<or> failedLogEventCount st + length (queue st) > 1000 \<longrightarrow>
        failedLogEvents (flush e True st) = failedLogEvents st \<and>
        failedLogEventCount (flush e True st) = failedLogEventCount st)"
    by blast
qed

lemma logAndFlush_sweep:
  assumes "queue st = []" "evs \<noteq> []" "int (length evs) < loggingBufferMaxSize (opts st)"
    "\<not> supportsKeepalive e" "navigatorSendBeacon e" "\<not> sendLogBeacon e"
  shows "logAndFlush e True evs st =
     saveFailedRequests (stringify e)
       (addFailedRequest (dateNow e)
          \<lparr>events = map (attachCurrentPage e (opts st)) evs,
            statsigMetadata = identityMetadata st, time = Number (dateNow e)\<rparr>
          (st\<lparr>calls := calls st @
                  [SendLogBeacon (map (attachCurrentPage e (opts st)) evs) (identityMetadata st)],
               queue := []\<rparr>))"
proof -
  from assms have "fold (log e) evs st = st\<lparr>queue := map (attachCurrentPage e (opts st)) evs\<rparr>"
    by (simp add: fold_log)
  with assms show ?thesis
    by (simp add: logAndFlush_def flush_beacon_refused)
qed

lemma attachCurrentPage_teardown: "attachCurrentPage teardownEnv os = (\<lambda>ev. ev)"
  by (rule ext) (simp add: attachCurrentPage_def teardownEnv_def)

lemma teardownEnv_fields:
  "dateNow teardownEnv = 1000" "\<not> supportsKeepalive teardownEnv"
  "navigatorSendBeacon teardownEnv" "\<not> sendLogBeacon teardownEnv"
  by (simp_all add: teardownEnv_def)

lemma exampleLogger_fields:
  "opts exampleLogger = exampleOptions" "identityMetadata exampleLogger = JNull"
  "queue exampleLogger = []" "loggedErrors exampleLogger = {}"
  "failedLogEvents exampleLogger = []" "failedLogEventCount exampleLogger = 0"
  "calls exampleLogger = []"
  by (simp_all add: exampleLogger_def newLogger_def)

lemma sweeps:
  assumes "evs \<noteq> []" "length evs < 100"
  shows "n \<le> 101 \<Longrightarrow> n * length evs \<le> 1000 \<Longrightarrow>
     failedLogEvents ((logAndFlush teardownEnv True evs ^^ n) exampleLogger) =
       replicate n \<lparr>events = evs, statsigMetadata = JNull, time = Number 1000\<rparr> \<and>
     failedLogEventCount ((logAndFlush teardownEnv True evs ^^ n) exampleLogger) = n * length evs \<and>
     queue ((logAndFlush teardownEnv True evs ^^ n) exampleLogger) = [] \<and>
     opts ((logAndFlush teardownEnv True evs ^^ n) exampleLogger) = exampleOptions \<and>
     identityMetadata ((logAndFlush teardownEnv True evs ^^ n) exampleLogger) = JNull \<and>
     loggedErrors ((logAndFlush teardownEnv True evs ^^ n) exampleLogger) = {}"
proof (induction n)
  case 0
  show ?case by (simp add: exampleLogger_def newLogger_def)
next
  case (Suc n)
  let ?S = "(logAndFlush teardownEnv True evs ^^ n) exampleLogger"
  let ?b = "\<lparr>events = evs, statsigMetadata = JNull, time = Number 1000\<rparr>"
  from Suc.prems have n: "n \<le> 100" "n * length evs + length evs \<le> 1000" by simp_all
  then have "n \<le> 101" "n * length evs \<le> 1000" by simp_all
  with Suc.IH have ih: "failedLogEvents ?S = replicate n ?b" "failedLogEventCount ?S = n * length evs"
    "queue ?S = []" "opts ?S = exampleOptions" "identityMetadata ?S = JNull" "loggedErrors ?S = {}"
    by simp_all
  have step: "logAndFlush teardownEnv True evs ?S =
     saveFailedRequests (stringify teardownEnv)
       (addFailedRequest 1000 ?b (?S\<lparr>calls := calls ?S @ [SendLogBeacon evs JNull], queue := []\<rparr>))"
    using logAndFlush_sweep [of ?S evs teardownEnv] assms ih teardownEnv_fields
    by (simp add: attachCurrentPage_teardown exampleOptions_def)
  have acc: "addFailedRequest 1000 ?b (?S\<lparr>calls := calls ?S @ [SendLogBeacon evs JNull], queue := []\<rparr>) =
     ?S\<lparr>calls := calls ?S @ [SendLogBeacon evs JNull], queue := [],
        failedLogEvents := replicate n ?b @ [?b],
        failedLogEventCount := n * length evs + length evs\<rparr>"
    using addFailedRequest_accepts
            [of ?b 1000 "?S\<lparr>calls := calls ?S @ [SendLogBeacon evs JNull], queue := []\<rparr>"]
      age_check_now [of 1000] n ih
    by simp
  show ?case
    by (simp add: step acc saveFailedRequests_frame ih replicate_append_same)
qed

text \<open>Against claim C6 as stated: after 101 refused terminating flushes of one
  event each, a further event is logged and flushed the same way; the store
  still holds the 101 earlier batches only.\<close>

theorem terminating_flush_dropped_counterexample:
  "queue (log teardownEnv view ((logAndFlush teardownEnv True [click] ^^ 101) exampleLogger)) = [view] \<and>
   \<not> supportsKeepalive teardownEnv \<and> navigatorSendBeacon teardownEnv \<and>
   \<not> sendLogBeacon teardownEnv \<and>
   failedLogEvents
     (flush teardownEnv True
        (log teardownEnv view ((logAndFlush teardownEnv True [click] ^^ 101) exampleLogger))) =
     replicate 101 \<lparr>events = [click], statsigMetadata = JNull, time = Number 1000\<rparr>"
proof -
  let ?S = "(logAndFlush teardownEnv True [click] ^^ 101) exampleLogger"
  have s: "failedLogEvents ?S =
       replicate 101 \<lparr>events = [click], statsigMetadata = JNull, time = Number 1000\<rparr>"
    "queue ?S = []" "opts ?S = exampleOptions"
    using sweeps [of "[click]" 101] by simp_all
  have l: "log teardownEnv view ?S = ?S\<lparr>queue := [view]\<rparr>"
    by (simp add: log_def Let_def s attachCurrentPage_teardown exampleOptions_def)
  note e = teardownEnv_fields(2-4)
  have "failedLogEvents (flush teardownEnv True (?S\<lparr>queue := [view]\<rparr>)) = failedLogEvents ?S"
    using e by (simp add: flush_beacon_refused saveFailedRequests_frame addFailedRequest_rejects s)
  with l s e show ?thesis by simp
qed

theorem terminating_flush_falls_back_witness:
  "queue (exampleLogger\<lparr>queue := [click]\<rparr>) \<noteq> [] \<and> \<not> supportsKeepalive teardownEnv \<and>
   navigatorSendBeacon teardownEnv \<and> \<not> sendLogBeacon teardownEnv \<and>
   length (failedLogEvents (exampleLogger\<lparr>queue := [click]\<rparr>)) < 100 \<and>
   failedLogEventCount (exampleLogger\<lparr>queue := [click]\<rparr>) +
     length (queue (exampleLogger\<lparr>queue := [click]\<rparr>)) \<le> 1000 \<and>
   queue (flush teardownEnv True (exampleLogger\<lparr>queue := [click]\<rparr>)) = [] \<and>
   failedLogEvents (flush teardownEnv True (exampleLogger\<lparr>queue := [click]\<rparr>)) =
     [\<lparr>events = [click], statsigMetadata = JNull, time = Number 1000\<rparr>] \<and>
   localStorage (flush teardownEnv True (exampleLogger\<lparr>queue := [click]\<rparr>))
     STATSIG_LOCAL_STORAGE_LOGGING_REQUEST_KEY = Some ''[]''"
  using terminating_flush_falls_back [of "exampleLogger\<lparr>queue := [click]\<rparr>" teardownEnv]
  by (simp add: exampleLogger_def newLogger_def teardownEnv_def MAX_LOCAL_STORAGE_SIZE_def
        MAX_FAILED_EVENTS_def MAX_BATCHES_TO_RETRY_def MS_RETRY_LOGS_CUTOFF_def
        addFailedRequest_def saveFailedRequests_def)

lemma newFailedRequest_new:
  "name \<notin> loggedErrors st \<Longrightarrow>
   newFailedRequest sf t name q st =
     saveFailedRequests sf
       (st\<lparr>loggedErrors := insert name (loggedErrors st),
           failedLogEvents := failedLogEvents st @
             [\<lparr>events = q, statsigMetadata = identityMetadata st, time = Number t\<rparr>]\<rparr>)"
  by (simp add: newFailedRequest_def Let_def)

lemma newFailedRequest_seen:
  "name \<in> loggedErrors st \<Longrightarrow> newFailedRequest sf t name q st = st"
  by (simp add: newFailedRequest_def)

lemma flushCatch_calls:
  "calls (flushCatch e q out st) =
     calls st @ (if out = ResponseNotOk None then [] else [LogError LOG_FAILURE_EVENT (length q)])"
  by (cases "LOG_FAILURE_EVENT \<in> loggedErrors st")
     (auto simp: flushCatch_def newFailedRequest_new newFailedRequest_seen saveFailedRequests_frame
           split: outcome.splits option.splits)

lemma flushCatch_new:
  "LOG_FAILURE_EVENT \<notin> loggedErrors st \<Longrightarrow>
   failedLogEvents (flushCatch e q out st) =
     failedLogEvents st @
       [\<lparr>events = q, statsigMetadata = identityMetadata st, time = Number (dateNow e)\<rparr>] \<and>
   failedLogEventCount (flushCatch e q out st) = failedLogEventCount st \<and>
   loggedErrors (flushCatch e q out st) = insert LOG_FAILURE_EVENT (loggedErrors st)"
  by (auto simp: flushCatch_def newFailedRequest_new saveFailedRequests_frame
           split: outcome.splits option.splits)

lemma flushCatch_seen:
  "LOG_FAILURE_EVENT \<in> loggedErrors st \<Longrightarrow>
   failedLogEvents (flushCatch e q out st) = failedLogEvents st \<and>
   failedLogEventCount (flushCatch e q out st) = failedLogEventCount st \<and>
   localStorage (flushCatch e q out st) = localStorage st \<and>
   loggedErrors (flushCatch e q out st) = loggedErrors st"
  by (auto simp: flushCatch_def newFailedRequest_seen split: outcome.splits option.splits)

lemma flushCatches_seen:
  "LOG_FAILURE_EVENT \<in> loggedErrors st \<Longrightarrow>
   failedLogEvents (fold (\<lambda>(e, q, out). flushCatch e q out) fs st) = failedLogEvents st"
proof (induction fs arbitrary: st)
  case Nil
  then show ?case by simp
next
  case (Cons f fs)
  obtain e q out where f: "f = (e, q, out)" by (cases f)
  from Cons.prems have "LOG_FAILURE_EVENT \<in> loggedErrors (flushCatch e q out st)"
    by (simp add: flushCatch_seen)
  from Cons.IH [OF this] Cons.prems show ?case
    by (simp add: f flushCatch_seen)
qed

lemma flushCatches_once:
  "length (failedLogEvents (fold (\<lambda>(e, q, out). flushCatch e q out) fs st)) \<le>
     length (failedLogEvents st) + 1"
proof (cases fs)
  case Nil
  then show ?thesis by simp
next
  case (Cons f fs')
  obtain e q out where f: "f = (e, q, out)" by (cases f)
  show ?thesis
  proof (cases "LOG_FAILURE_EVENT \<in> loggedErrors st")
    case True
    then show ?thesis by (simp add: flushCatches_seen)
  next
    case False
    then have "LOG_FAILURE_EVENT \<in> loggedErrors (flushCatch e q out st)"
      by (simp add: flushCatch_new)
    from flushCatches_seen [OF this, of fs'] False show ?thesis
      by (simp add: Cons f flushCatch_new)
  qed
qed

text \<open>The recorded keys only grow, whatever is called on the logger.\<close>

lemma flush_loggedErrors: "loggedErrors (flush e c st) = loggedErrors st"
  by (simp add: flush_def Let_def saveFailedRequests_frame addFailedRequest_frame)

lemma log_loggedErrors: "loggedErrors (log e ev st) = loggedErrors st"
  by (simp add: log_def Let_def flush_loggedErrors)

lemma shouldLogExposure_loggedErrors:
  "shouldLogExposure t k st = (ok, st1) \<Longrightarrow> loggedErrors st1 = loggedErrors st"
  using shouldLogExposure_cases [of t k st] by auto

lemma logGateExposure_loggedErrors:
  "loggedErrors (logGateExposure mk e u g v r se d m st) = loggedErrors st"
proof -
  obtain ok st1 where s: "shouldLogExposure (dateNow e) (gateDedupeKey g v r d) st = (ok, st1)"
    by (cases "shouldLogExposure (dateNow e) (gateDedupeKey g v r d) st")
  with shouldLogExposure_loggedErrors [OF s] show ?thesis
    by (simp add: logGateExposure_def Let_def log_loggedErrors)
qed

lemma logConfigExposure_loggedErrors:
  "loggedErrors (logConfigExposure mk e u c r se d m st) = loggedErrors st"
proof -
  obtain ok st1 where s: "shouldLogExposure (dateNow e) (configDedupeKey c r d) st = (ok, st1)"
    by (cases "shouldLogExposure (dateNow e) (configDedupeKey c r d) st")
  with shouldLogExposure_loggedErrors [OF s] show ?thesis
    by (simp add: logConfigExposure_def Let_def log_loggedErrors)
qed

lemma logLayerExposure_loggedErrors:
  "loggedErrors (logLayerExposure mk e u c r se a p x d m st) = loggedErrors st"
proof -
  obtain ok st1 where
    s: "shouldLogExposure (dateNow e) (layerDedupeKey c r a p x d) st = (ok, st1)"
    by (cases "shouldLogExposure (dateNow e) (layerDedupeKey c r a p x d) st")
  with shouldLogExposure_loggedErrors [OF s] show ?thesis
    by (simp add: logLayerExposure_def Let_def log_loggedErrors)
qed

lemma flushFinally_loggedErrors: "loggedErrors (flushFinally e c md st) = loggedErrors st"
  by (simp add: flushFinally_def Let_def saveFailedRequests_frame addFailedRequest_frame)

lemma flushCatch_loggedErrors: "loggedErrors st \<subseteq> loggedErrors (flushCatch e q out st)"
  by (cases "LOG_FAILURE_EVENT \<in> loggedErrors st")
     (auto simp: flushCatch_new flushCatch_seen)

lemma loggerStep_loggedErrors: "loggedErrors st \<subseteq> loggedErrors (loggerStep mk x st)"
proof -
  obtain e op where x: "x = (e, op)" by (cases x)
  show ?thesis
  proof (cases op)
    case (PostSettled c md q out)
    then show ?thesis
      using flushCatch_loggedErrors [of st e q out]
      by (cases out) (simp_all add: x flushSettled_def flushFinally_loggedErrors)
  next
    case (DoDefaultValueFallback u msg md)
    then show ?thesis
      by (auto simp: x logConfigDefaultValueFallback_def Let_def log_loggedErrors)
  qed (simp_all add: x log_loggedErrors flush_loggedErrors shutdown_def resetDedupeKeys_def
         logGateExposure_loggedErrors logConfigExposure_loggedErrors
         logLayerExposure_loggedErrors sendSavedRequests_def clearLocalStorageRequests_def
         savedRequestCatch_def addFailedRequest_frame split: option.splits)
qed

lemma loggerRun_loggedErrors: "loggedErrors st \<subseteq> loggedErrors (loggerRun mk ops st)"
proof (induction ops arbitrary: st)
  case Nil
  then show ?case by simp
next
  case (Cons x xs)
  from loggerStep_loggedErrors [of st mk x] Cons.IH [of "loggerStep mk x st"]
  show ?case by auto
qed

text \<open>With the key already recorded the handler does nothing but its call of the
  error boundary.\<close>

lemma flushCatch_dropped:
  "LOG_FAILURE_EVENT \<in> loggedErrors st \<Longrightarrow>
   flushCatch e q out st =
     st\<lparr>calls := calls st @
          (if out = ResponseNotOk None then [] else [LogError LOG_FAILURE_EVENT (length q)])\<rparr>"
  by (cases out; cases st)
     (auto simp: flushCatch_def newFailedRequest_seen split: option.splits)

lemma flushCatch_queue: "queue (flushCatch e q out st) = queue st"
  by (cases "LOG_FAILURE_EVENT \<in> loggedErrors st")
     (auto simp: flushCatch_def newFailedRequest_new newFailedRequest_seen
        saveFailedRequests_frame split: outcome.splits option.splits)

text \<open>The \<^verbatim>\<open>finally\<close> block keeps every stored batch and adds at most the sweep of
  the queue.\<close>

lemma flushFinally_store:
  "failedLogEvents (flushFinally e c md st) = failedLogEvents st \<or>
   failedLogEvents (flushFinally e c md st) =
     failedLogEvents st @
       [\<lparr>events = queue st, statsigMetadata = md, time = Number (dateNow e)\<rparr>]"
proof (cases "c \<and> queue st \<noteq> []")
  case False
  then show ?thesis
    by (auto simp: flushFinally_def saveFailedRequests_frame)
next
  case True
  let ?b = "\<lparr>events = queue st, statsigMetadata = md, time = Number (dateNow e)\<rparr>"
  have "addFailedRequest (dateNow e) ?b st = st \<or>
        addFailedRequest (dateNow e) ?b st =
          st\<lparr>failedLogEvents := failedLogEvents st @ [?b],
             failedLogEventCount := failedLogEventCount st + length (events ?b)\<rparr>"
    by (simp add: addFailedRequest_def Let_def)
  then have "failedLogEvents (addFailedRequest (dateNow e) ?b st) = failedLogEvents st \<or>
        failedLogEvents (addFailedRequest (dateNow e) ?b st) = failedLogEvents st @ [?b]"
    by auto
  with True show ?thesis
    by (simp add: flushFinally_def saveFailedRequests_frame)
qed

text \<open>
  Claim C2, as amended. When a post fails for good, the promise chain runs the
  failure handler and then the \<^verbatim>\<open>finally\<close> block, for a terminating flush as for
  any other. The handler calls the error boundary under the key of the failure,
  once, or not at all when the failure is a response whose text never resolves;
  it does so whether or not the key is recorded. It moves the batch to the
  failure store, as one batch stamped with the time of the failure, only when
  that key is not yet among the logged errors, and records the key; the
  \<^verbatim>\<open>finally\<close> block keeps that batch and adds at most its sweep of the queue
  behind it. With the key already recorded the handler changes nothing in the
  logger but the call: the batch is dropped. A recorded key stays recorded over
  every run of the logger, so after it no final failure is stored any more, and
  over any number of final failures in a row this path adds at most one batch.
\<close>

theorem final_failure_stored_once_per_key:
  "(out \<noteq> ResponseOk \<longrightarrow>
      flushSettled e isClosing md q out st =
        flushFinally e isClosing md (flushCatch e q out st)) \<and>
   calls (flushCatch e q out st) =
     calls st @ (if out = ResponseNotOk None then [] else [LogError LOG_FAILURE_EVENT (length q)]) \<and>
   (LOG_FAILURE_EVENT \<notin> loggedErrors st \<longrightarrow>
      failedLogEvents (flushCatch e q out st) =
        failedLogEvents st @
          [\<lparr>events = q, statsigMetadata = identityMetadata st, time = Number (dateNow e)\<rparr>] \<and>
      loggedErrors (flushCatch e q out st) = insert LOG_FAILURE_EVENT (loggedErrors st) \<and>
      (\<exists>rest.
         failedLogEvents (flushFinally e isClosing md (flushCatch e q out st)) =
           failedLogEvents st @
             [\<lparr>events = q, statsigMetadata = identityMetadata st, time = Number (dateNow e)\<rparr>] @
             rest \<and>
         (rest = [] \<or>
          rest = [\<lparr>events = queue st, statsigMetadata = md, time = Number (dateNow e)\<rparr>]))) \<and>
   (LOG_FAILURE_EVENT \<in> loggedErrors st \<longrightarrow>
      flushCatch e q out st =
        st\<lparr>calls := calls st @
             (if out = ResponseNotOk None then []
              else [LogError LOG_FAILURE_EVENT (length q)])\<rparr> \<and>
      failedLogEvents (flushCatch e q out (loggerRun mk ops st)) =
        failedLogEvents (loggerRun mk ops st)) \<and>
   length (failedLogEvents (fold (\<lambda>(e, q, out). flushCatch e q out) fs st)) \<le>
     length (failedLogEvents st) + 1"
proof -
  let ?b = "\<lparr>events = q, statsigMetadata = identityMetadata st, time = Number (dateNow e)\<rparr>"
  have settled: "out \<noteq> ResponseOk \<longrightarrow>
      flushSettled e isClosing md q out st =
        flushFinally e isClosing md (flushCatch e q out st)"
    by (cases out) (simp_all add: flushSettled_def)
  have swept: "\<exists>rest.
         failedLogEvents (flushFinally e isClosing md (flushCatch e q out st)) =
           failedLogEvents st @ [?b] @ rest \<and>
         (rest = [] \<or>
          rest = [\<lparr>events = queue st, statsigMetadata = md, time = Number (dateNow e)\<rparr>])"
    if new: "LOG_FAILURE_EVENT \<notin> loggedErrors st"
  proof -
    from flushCatch_new [OF new, of e q out]
    have c: "failedLogEvents (flushCatch e q out st) = failedLogEvents st @ [?b]" by simp
    from flushFinally_store [of e isClosing md "flushCatch e q out st"]
    show ?thesis
    proof
      assume "failedLogEvents (flushFinally e isClosing md (flushCatch e q out st)) =
          failedLogEvents (flushCatch e q out st)"
      with c show ?thesis by simp
    next
      assume "failedLogEvents (flushFinally e isClosing md (flushCatch e q out st)) =
          failedLogEvents (flushCatch e q out st) @
            [\<lparr>events = queue (flushCatch e q out st), statsigMetadata = md,
              time = Number (dateNow e)\<rparr>]"
      with c show ?thesis by (simp add: flushCatch_queue)
    qed
  qed
  have later: "failedLogEvents (flushCatch e q out (loggerRun mk ops st)) =
        failedLogEvents (loggerRun mk ops st)"
    if "LOG_FAILURE_EVENT \<in> loggedErrors st"
  proof -
    from that loggerRun_loggedErrors [of st mk ops]
    have "LOG_FAILURE_EVENT \<in> loggedErrors (loggerRun mk ops st)" by auto
    then show ?thesis by (simp add: flushCatch_seen)
  qed
  from settled swept later show ?thesis
    using flushCatch_calls [of e q out st] flushCatch_new [of st e q out]
      flushCatch_dropped [of st e q out] flushCatches_once [of fs st]
    by blast
qed

lemma logAndFail_unfold:
  assumes "queue st = []" "1 < loggingBufferMaxSize (opts st)"
  shows "logAndFail e ev st =
     flushCatch e [attachCurrentPage e (opts st) ev] Rejected
       (st\<lparr>calls := calls st @
              [PostToEndpoint [attachCurrentPage e (opts st) ev] (identityMetadata st) 3 1000 False]\<rparr>)"
proof -
  from assms have "log e ev st = st\<lparr>queue := [attachCurrentPage e (opts st) ev]\<rparr>"
    by (simp add: log_def Let_def)
  with assms have "flush e False (log e ev st) =
      st\<lparr>calls := calls st @
              [PostToEndpoint [attachCurrentPage e (opts st) ev] (identityMetadata st) 3 1000 False]\<rparr>"
    by (cases st) (simp add: flush_def Let_def)
  then show ?thesis
    by (simp add: logAndFail_def flushSettled_def flushFinally_def)
qed

text \<open>Against claim C2 as stated: two posts of one event each fail one after the
  other; only the first batch is in the failure store, while the error boundary
  has been called for both failures under the same key.\<close>

theorem second_failed_batch_dropped_counterexample:
  "failedLogEvents (logAndFail teardownEnv view (logAndFail teardownEnv click exampleLogger)) =
     [\<lparr>events = [click], statsigMetadata = JNull, time = Number 1000\<rparr>] \<and>
   calls (logAndFail teardownEnv view (logAndFail teardownEnv click exampleLogger)) =
     [PostToEndpoint [click] JNull 3 1000 False, LogError LOG_FAILURE_EVENT 1,
      PostToEndpoint [view] JNull 3 1000 False, LogError LOG_FAILURE_EVENT 1]"
proof -
  let ?S = "logAndFail teardownEnv click exampleLogger"
  let ?P = "exampleLogger\<lparr>calls := calls exampleLogger @ [PostToEndpoint [click] JNull 3 1000 False]\<rparr>"
  let ?Q = "?S\<lparr>calls := calls ?S @ [PostToEndpoint [view] JNull 3 1000 False]\<rparr>"
  have u: "?S = flushCatch teardownEnv [click] Rejected ?P"
    using logAndFail_unfold [of exampleLogger teardownEnv click]
    by (simp add: exampleLogger_fields exampleOptions_def attachCurrentPage_teardown)
  have s: "failedLogEvents ?S = [\<lparr>events = [click], statsigMetadata = JNull, time = Number 1000\<rparr>]"
    "LOG_FAILURE_EVENT \<in> loggedErrors ?S"
    using flushCatch_new [of ?P teardownEnv "[click]" Rejected]
    by (simp_all add: u exampleLogger_fields teardownEnv_fields)
  have c: "calls ?S = [PostToEndpoint [click] JNull 3 1000 False, LogError LOG_FAILURE_EVENT 1]"
    using flushCatch_calls [of teardownEnv "[click]" Rejected ?P]
    by (simp add: u exampleLogger_fields)
  have f: "queue ?S = []" "opts ?S = exampleOptions" "identityMetadata ?S = JNull"
    by (simp_all add: u flushCatch_def newFailedRequest_def saveFailedRequests_frame Let_def
          exampleLogger_fields)
  have v: "logAndFail teardownEnv view ?S = flushCatch teardownEnv [view] Rejected ?Q"
    using logAndFail_unfold [of ?S teardownEnv view] f
    by (simp add: exampleOptions_def attachCurrentPage_teardown)
  have "failedLogEvents (logAndFail teardownEnv view ?S) = failedLogEvents ?S"
    using flushCatch_seen [of ?Q teardownEnv "[view]" Rejected] s
    by (simp add: v)
  moreover have "calls (logAndFail teardownEnv view ?S) =
      calls ?S @ [PostToEndpoint [view] JNull 3 1000 False, LogError LOG_FAILURE_EVENT 1]"
    using flushCatch_calls [of teardownEnv "[view]" Rejected ?Q]
    by (simp add: v)
  ultimately show ?thesis using s c by simp
qed

theorem final_failure_stored_once_per_key_witness:
  "Rejected \<noteq> ResponseOk \<and> LOG_FAILURE_EVENT \<notin> loggedErrors exampleLogger \<and>
   failedLogEvents (flushSettled teardownEnv False JNull [click] Rejected exampleLogger) =
     [\<lparr>events = [click], statsigMetadata = JNull, time = Number 1000\<rparr>] \<and>
   calls (flushSettled teardownEnv False JNull [click] Rejected exampleLogger) =
     [LogError LOG_FAILURE_EVENT 1] \<and>
   LOG_FAILURE_EVENT \<in>
     loggedErrors (exampleLogger\<lparr>loggedErrors := {LOG_FAILURE_EVENT}, queue := [click]\<rparr>) \<and>
   failedLogEvents (flushSettled teardownEnv False JNull [view] Rejected
                      (exampleLogger\<lparr>loggedErrors := {LOG_FAILURE_EVENT}, queue := [click]\<rparr>)) =
     [] \<and>
   failedLogEvents (flushSettled teardownEnv True JNull [view] Rejected
                      (exampleLogger\<lparr>loggedErrors := {LOG_FAILURE_EVENT}, queue := [click]\<rparr>)) =
     [\<lparr>events = [click], statsigMetadata = JNull, time = Number 1000\<rparr>]"
  using final_failure_stored_once_per_key
          [where out = Rejected and e = teardownEnv and md = JNull and q = "[click]"
             and st = exampleLogger and fs = "[]" and ops = "[]" and isClosing = False]
        final_failure_stored_once_per_key
          [where out = Rejected and e = teardownEnv and md = JNull and q = "[view]"
             and st = "exampleLogger\<lparr>loggedErrors := {LOG_FAILURE_EVENT}, queue := [click]\<rparr>"
             and fs = "[]" and ops = "[]" and isClosing = False]
        final_failure_stored_once_per_key
          [where out = Rejected and e = teardownEnv and md = JNull and q = "[view]"
             and st = "exampleLogger\<lparr>loggedErrors := {LOG_FAILURE_EVENT}, queue := [click]\<rparr>"
             and fs = "[]" and ops = "[]" and isClosing = True]
  by (simp add: exampleLogger_fields teardownEnv_fields flushFinally_def addFailedRequest_def
        saveFailedRequests_frame MS_RETRY_LOGS_CUTOFF_def MAX_BATCHES_TO_RETRY_def
        MAX_FAILED_EVENTS_def)

text \<open>What the code does maintain, over every run from a new logger: the counter
  of \<^verbatim>\<open>_addFailedRequest\<close> stays within 1000 and the store never holds more than
  102 batches.\<close>

lemma withinCaps_frame:
  assumes "failedLogEventCount st1 = failedLogEventCount st"
    "failedLogEvents st1 = failedLogEvents st" "loggedErrors st \<subseteq> loggedErrors st1"
    "withinCaps st"
  shows "withinCaps st1"
  using assms unfolding withinCaps_def by auto

lemma addFailedRequest_withinCaps:
  "withinCaps st \<Longrightarrow> withinCaps (addFailedRequest t b st)"
  by (auto simp: withinCaps_def addFailedRequest_def Let_def MAX_BATCHES_TO_RETRY_def
        MAX_FAILED_EVENTS_def)

lemma saveFailedRequests_withinCaps:
  "withinCaps st \<Longrightarrow> withinCaps (saveFailedRequests sf st)"
  by (rule withinCaps_frame [of _ st]) (simp_all add: saveFailedRequests_frame)

lemma withinCaps_queue_calls:
  "withinCaps (st\<lparr>queue := q\<rparr>) = withinCaps st"
  "withinCaps (st\<lparr>calls := cs\<rparr>) = withinCaps st"
  by (simp_all add: withinCaps_def)

lemma flush_withinCaps: "withinCaps st \<Longrightarrow> withinCaps (flush e c st)"
  by (simp add: flush_def Let_def saveFailedRequests_withinCaps withinCaps_queue_calls
        addFailedRequest_withinCaps)

lemma log_withinCaps: "withinCaps st \<Longrightarrow> withinCaps (log e ev st)"
  by (simp add: log_def Let_def flush_withinCaps withinCaps_queue_calls)

lemma flushCatch_withinCaps:
  assumes w: "withinCaps st"
  shows "withinCaps (flushCatch e q out st)"
proof (cases "LOG_FAILURE_EVENT \<in> loggedErrors st")
  case True
  from flushCatch_seen [OF True, of e q out]
  have "failedLogEventCount (flushCatch e q out st) = failedLogEventCount st"
    "failedLogEvents (flushCatch e q out st) = failedLogEvents st"
    "loggedErrors st \<subseteq> loggedErrors (flushCatch e q out st)"
    by simp_all
  from this w show ?thesis by (rule withinCaps_frame)
next
  case False
  with w have l: "length (failedLogEvents st) \<le> MAX_BATCHES_TO_RETRY + 1"
    and n: "failedLogEventCount st \<le> MAX_FAILED_EVENTS"
    unfolding withinCaps_def by blast+
  from flushCatch_new [OF False, of e q out]
  have "length (failedLogEvents (flushCatch e q out st)) = length (failedLogEvents st) + 1"
    and "failedLogEventCount (flushCatch e q out st) = failedLogEventCount st"
    and "LOG_FAILURE_EVENT \<in> loggedErrors (flushCatch e q out st)"
    by simp_all
  with l n show ?thesis
    unfolding withinCaps_def by arith
qed

lemma flushFinally_withinCaps:
  assumes w: "withinCaps st"
  shows "withinCaps (flushFinally e c md st)"
proof -
  have a: "withinCaps ((addFailedRequest t b st)\<lparr>queue := []\<rparr>)" for t b
    using addFailedRequest_withinCaps [OF w, of t b] by (simp only: withinCaps_queue_calls)
  show ?thesis
  proof (cases c)
    case False
    with w show ?thesis by (simp add: flushFinally_def)
  next
    case True
    show ?thesis
    proof (cases "queue st = []")
      case True
      with \<open>c\<close> w show ?thesis
        by (simp add: flushFinally_def saveFailedRequests_withinCaps)
    next
      case False
      with \<open>c\<close> a show ?thesis
        by (simp add: flushFinally_def saveFailedRequests_withinCaps)
    qed
  qed
qed

lemma withinCaps_other:
  "withinCaps (st\<lparr>exposureDedupeKeys := ks\<rparr>) = withinCaps st"
  "withinCaps (st\<lparr>localStorage := ls\<rparr>) = withinCaps st"
  by (simp_all add: withinCaps_def)

lemma shouldLogExposure_withinCaps:
  assumes "shouldLogExposure t k st = (ok, st1)" "withinCaps st"
  shows "withinCaps st1"
proof -
  from assms(1) have "st1 = st \<or> st1 = st\<lparr>exposureDedupeKeys := (exposureDedupeKeys st)(k \<mapsto> t)\<rparr>"
    using shouldLogExposure_cases [of t k st] by auto
  with assms(2) show ?thesis by (auto simp: withinCaps_other)
qed

lemma logGateExposure_withinCaps:
  assumes w: "withinCaps st"
  shows "withinCaps (logGateExposure mk e u g v r se d m st)"
proof -
  obtain ok st1 where s: "shouldLogExposure (dateNow e) (gateDedupeKey g v r d) st = (ok, st1)"
    by (cases "shouldLogExposure (dateNow e) (gateDedupeKey g v r d) st")
  from shouldLogExposure_withinCaps [OF s w] show ?thesis
    by (simp add: logGateExposure_def Let_def s log_withinCaps)
qed

lemma logConfigExposure_withinCaps:
  assumes w: "withinCaps st"
  shows "withinCaps (logConfigExposure mk e u c r se d m st)"
proof -
  obtain ok st1 where s: "shouldLogExposure (dateNow e) (configDedupeKey c r d) st = (ok, st1)"
    by (cases "shouldLogExposure (dateNow e) (configDedupeKey c r d) st")
  from shouldLogExposure_withinCaps [OF s w] show ?thesis
    by (simp add: logConfigExposure_def Let_def s log_withinCaps)
qed

lemma logLayerExposure_withinCaps:
  assumes w: "withinCaps st"
  shows "withinCaps (logLayerExposure mk e u c r se a p x d m st)"
proof -
  obtain ok st1 where
    s: "shouldLogExposure (dateNow e) (layerDedupeKey c r a p x d) st = (ok, st1)"
    by (cases "shouldLogExposure (dateNow e) (layerDedupeKey c r a p x d) st")
  from shouldLogExposure_withinCaps [OF s w] show ?thesis
    by (simp add: logLayerExposure_def Let_def s log_withinCaps)
qed

lemma withinCaps_loggedErrors:
  "withinCaps st \<Longrightarrow> withinCaps (st\<lparr>loggedErrors := insert x (loggedErrors st)\<rparr>)"
  by (rule withinCaps_frame [of _ st]) auto

lemma sendSavedRequests_withinCaps:
  "withinCaps st \<Longrightarrow> withinCaps (sendSavedRequests parse st)"
  by (cases "localStorage st STATSIG_LOCAL_STORAGE_LOGGING_REQUEST_KEY")
     (simp_all add: sendSavedRequests_def clearLocalStorageRequests_def withinCaps_other
        withinCaps_queue_calls)

lemma loggerStep_withinCaps:
  assumes w: "withinCaps st"
  shows "withinCaps (loggerStep mk x st)"
proof -
  obtain e op where x: "x = (e, op)" by (cases x)
  show ?thesis
  proof (cases op)
    case (DoLog ev)
    with w show ?thesis by (simp add: x log_withinCaps)
  next
    case (DoFlush c)
    with w show ?thesis by (simp add: x flush_withinCaps)
  next
    case DoShutdown
    with w show ?thesis by (simp add: x shutdown_def flush_withinCaps)
  next
    case DoResetDedupeKeys
    with w show ?thesis by (simp add: x resetDedupeKeys_def withinCaps_other)
  next
    case (DoGateExposure u g v r se d m)
    with w show ?thesis by (simp add: x logGateExposure_withinCaps)
  next
    case (DoConfigExposure u c r se d m)
    with w show ?thesis by (simp add: x logConfigExposure_withinCaps)
  next
    case (DoLayerExposure u c r se a p y d m)
    with w show ?thesis by (simp add: x logLayerExposure_withinCaps)
  next
    case (DoDefaultValueFallback u msg md)
    with w show ?thesis
      by (simp add: x logConfigDefaultValueFallback_def Let_def log_withinCaps
            withinCaps_loggedErrors)
  next
    case (DoSendSavedRequests parse)
    with w show ?thesis by (simp add: x sendSavedRequests_withinCaps)
  next
    case (PostSettled c md q out)
    with w show ?thesis
      by (cases out)
         (simp_all add: x flushSettled_def flushFinally_withinCaps flushCatch_withinCaps)
  next
    case (SavedRequestFailed ff b)
    with w show ?thesis by (simp add: x savedRequestCatch_def addFailedRequest_withinCaps)
  qed
qed

lemma loggerRun_withinCaps: "withinCaps st \<Longrightarrow> withinCaps (loggerRun mk ops st)"
  by (induction ops arbitrary: st) (simp_all add: loggerStep_withinCaps)

lemma newLogger_withinCaps: "withinCaps (newLogger os md storage)"
  by (simp add: withinCaps_def newLogger_def)

lemma loggerRun_caps:
  "failedLogEventCount (loggerRun mk ops (newLogger os md storage)) \<le> 1000 \<and>
   length (failedLogEvents (loggerRun mk ops (newLogger os md storage))) \<le> 102"
  using loggerRun_withinCaps [OF newLogger_withinCaps, of mk ops os md storage]
  by (auto simp: withinCaps_def MAX_FAILED_EVENTS_def MAX_BATCHES_TO_RETRY_def)

lemma bufferedEvents_replicate:
  "failedLogEvents st = replicate n b @ bs \<Longrightarrow>
   bufferedEvents st = n * length (events b) + sum_list (map (\<lambda>b. length (events b)) bs)"
  by (simp add: bufferedEvents_def sum_list_replicate)

text \<open>
  Claim C1, evaluated where the code leaves it. After 101 refused terminating
  flushes of one event each the store holds 101 batches. After 100 refused
  terminating flushes of ten events each and one finally failed post of a single
  event, the store holds 101 batches with 1001 events, while the event count of
  the logger still says 1000.
\<close>

theorem failure_store_caps_exceeded:
  "length (failedLogEvents ((logAndFlush teardownEnv True [click] ^^ 101) exampleLogger)) = 101 \<and>
   length (failedLogEvents
             (logAndFail teardownEnv view
                ((logAndFlush teardownEnv True (replicate 10 click) ^^ 100) exampleLogger))) = 101 \<and>
   bufferedEvents
     (logAndFail teardownEnv view
        ((logAndFlush teardownEnv True (replicate 10 click) ^^ 100) exampleLogger)) = 1001 \<and>
   failedLogEventCount
     (logAndFail teardownEnv view
        ((logAndFlush teardownEnv True (replicate 10 click) ^^ 100) exampleLogger)) = 1000"
proof -
  have a: "length (failedLogEvents ((logAndFlush teardownEnv True [click] ^^ 101) exampleLogger)) = 101"
    using sweeps [of "[click]" 101] by simp
  let ?S = "(logAndFlush teardownEnv True (replicate 10 click) ^^ 100) exampleLogger"
  let ?P = "?S\<lparr>calls := calls ?S @ [PostToEndpoint [view] JNull 3 1000 False]\<rparr>"
  have s: "failedLogEvents ?S =
       replicate 100 \<lparr>events = replicate 10 click, statsigMetadata = JNull, time = Number 1000\<rparr>"
    "failedLogEventCount ?S = 1000" "queue ?S = []" "opts ?S = exampleOptions"
    "identityMetadata ?S = JNull" "loggedErrors ?S = {}"
    using sweeps [of "replicate 10 click" 100] by simp_all
  have u: "logAndFail teardownEnv view ?S = flushCatch teardownEnv [view] Rejected ?P"
    using logAndFail_unfold [of ?S teardownEnv view] s
    by (simp add: exampleOptions_def attachCurrentPage_teardown)
  have f: "failedLogEvents (logAndFail teardownEnv view ?S) =
       replicate 100 \<lparr>events = replicate 10 click, statsigMetadata = JNull, time = Number 1000\<rparr> @
       [\<lparr>events = [view], statsigMetadata = JNull, time = Number 1000\<rparr>]"
    "failedLogEventCount (logAndFail teardownEnv view ?S) = 1000"
    using flushCatch_new [of ?P teardownEnv "[view]" Rejected] s
    by (simp_all add: u teardownEnv_fields)
  from f(1) have "length (failedLogEvents (logAndFail teardownEnv view ?S)) = 101"
    by simp
  moreover from bufferedEvents_replicate [OF f(1)]
  have "bufferedEvents (logAndFail teardownEnv view ?S) = 1001"
    by simp
  ultimately show ?thesis using a f(2) by simp
qed

section \<open>Properties of LogEvent\<close>

lemma invoke_frame:
  "statsigMetadata' (fst s) \<noteq> u \<Longrightarrow>
   user (fst (invoke m s)) = user (fst s) \<and>
   statsigMetadata' (fst (invoke m s)) = statsigMetadata' (fst s) \<and>
   length (snd (invoke m s)) = length (snd s) \<and>
   snd (invoke m s) ! u = snd s ! u"
  by (cases m; cases s) (simp_all add: setValue_def setMetadata_def addStatsigMetadata_def)

lemma invokeAll_frame:
  "statsigMetadata' (fst s) \<noteq> u \<Longrightarrow>
   user (fst (invokeAll ms s)) = user (fst s) \<and>
   snd (invokeAll ms s) ! u = snd s ! u"
proof (induction ms arbitrary: s)
  case Nil
  then show ?case by simp
next
  case (Cons m ms)
  from invoke_frame [OF Cons.prems, of m]
  have i: "user (fst (invoke m s)) = user (fst s)"
    "statsigMetadata' (fst (invoke m s)) = statsigMetadata' (fst s)"
    "snd (invoke m s) ! u = snd s ! u"
    by simp_all
  with Cons.prems have "statsigMetadata' (fst (invoke m s)) \<noteq> u" by simp
  from Cons.IH [OF this] i show ?case by simp
qed

lemma setUser_result:
  "setUser newUser (ev, h) =
     (ev\<lparr>user := Some (length h)\<rparr>,
      h @ [filter (\<lambda>(k, v). k \<noteq> ''privateAttributes'')
             (case newUser of None \<Rightarrow> [] | Some a \<Rightarrow> h ! a)])"
  by (simp add: setUser_def Let_def)

text \<open>
  Claim C8. For a user that is \<^verbatim>\<open>null\<close> or a valid reference, \<^verbatim>\<open>setUser\<close> stores on
  the event a reference to a newly allocated object, which is what
  \<^verbatim>\<open>toJsonObject\<close> gives under \<^verbatim>\<open>user\<close>; this object has no \<^verbatim>\<open>privateAttributes\<close>
  property and agrees with the caller's object on every other property. Every
  object that existed before the call, the caller's among them, is unchanged.
  Whatever other methods of the class are called afterwards, the event keeps
  this reference and the object keeps its properties.
\<close>

theorem setUser_strips_private_attributes:
  "(case newUser of None \<Rightarrow> True | Some a \<Rightarrow> a < length h) \<and> statsigMetadata' ev < length h \<longrightarrow>
   (let (ev1, h1) = setUser newUser (ev, h); u = length h in
      user ev1 = Some u \<and> length h1 = Suc (length h) \<and>
      map_of (toJsonObject ev1) ''user'' = Some (VRef u) \<and>
      map_of (h1 ! u) ''privateAttributes'' = None \<and>
      (\<forall>k. k \<noteq> ''privateAttributes'' \<longrightarrow>
         map_of (h1 ! u) k = (case newUser of None \<Rightarrow> None | Some a \<Rightarrow> map_of (h ! a) k)) \<and>
      (\<forall>a < length h. h1 ! a = h ! a) \<and>
      (\<forall>ms. user (fst (invokeAll ms (ev1, h1))) = Some u \<and>
            snd (invokeAll ms (ev1, h1)) ! u = h1 ! u))"
proof (intro impI)
  assume a: "(case newUser of None \<Rightarrow> True | Some a \<Rightarrow> a < length h) \<and>
    statsigMetadata' ev < length h"
  let ?copy = "filter (\<lambda>(k, v). k \<noteq> ''privateAttributes'')
             (case newUser of None \<Rightarrow> [] | Some a \<Rightarrow> h ! a)"
  let ?ev1 = "ev\<lparr>user := Some (length h)\<rparr>"
  let ?h1 = "h @ [?copy]"
  have priv: "map_of ?copy ''privateAttributes'' = None"
    by (auto simp: map_of_eq_None_iff)
  have other: "map_of ?copy k = (case newUser of None \<Rightarrow> None | Some a \<Rightarrow> map_of (h ! a) k)"
    if "k \<noteq> ''privateAttributes''" for k
  proof -
    have "map_of (filter (\<lambda>(k, v). k \<noteq> ''privateAttributes'') xs) k = map_of xs k"
      for xs :: "(string \<times> val) list"
      using that by (induction xs) auto
    then show ?thesis by (cases newUser) simp_all
  qed
  have old: "\<forall>a < length h. ?h1 ! a = h ! a"
    by (simp add: nth_append)
  from a have "statsigMetadata' (fst (?ev1, ?h1)) \<noteq> length h" by simp
  from invokeAll_frame [OF this]
  have later: "\<forall>ms. user (fst (invokeAll ms (?ev1, ?h1))) = Some (length h) \<and>
            snd (invokeAll ms (?ev1, ?h1)) ! length h = ?h1 ! length h"
    by simp
  show "let (ev1, h1) = setUser newUser (ev, h); u = length h in
      user ev1 = Some u \<and> length h1 = Suc (length h) \<and>
      map_of (toJsonObject ev1) ''user'' = Some (VRef u) \<and>
      map_of (h1 ! u) ''privateAttributes'' = None \<and>
      (\<forall>k. k \<noteq> ''privateAttributes'' \<longrightarrow>
         map_of (h1 ! u) k = (case newUser of None \<Rightarrow> None | Some a \<Rightarrow> map_of (h ! a) k)) \<and>
      (\<forall>a < length h. h1 ! a = h ! a) \<and>
      (\<forall>ms. user (fst (invokeAll ms (ev1, h1))) = Some u \<and>
            snd (invokeAll ms (ev1, h1)) ! u = h1 ! u)"
    unfolding setUser_result Let_def prod.case
    using priv other old later by (simp add: toJsonObject_def)
qed

theorem setUser_strips_private_attributes_witness:
  "(1::nat) < length exampleHeap \<and> statsigMetadata' exampleEvent < length exampleHeap \<and>
   user (fst (setUser (Some 1) (exampleEvent, exampleHeap))) = Some 3 \<and>
   snd (setUser (Some 1) (exampleEvent, exampleHeap)) ! 3 = [(''userID'', VStr ''u1'')] \<and>
   snd (setUser (Some 1) (exampleEvent, exampleHeap)) ! 1 =
     [(''userID'', VStr ''u1''), (''privateAttributes'', VRef 2)] \<and>
   snd (invokeAll [AddStatsigMetadata ''k'' (VNum 1), SetValue (VStr ''v''), ToJsonObject]
          (setUser (Some 1) (exampleEvent, exampleHeap))) ! 3 = [(''userID'', VStr ''u1'')]"
  using setUser_strips_private_attributes
          [where newUser = "Some 1" and h = exampleHeap and ev = exampleEvent]
  by (simp add: exampleHeap_def exampleEvent_def newLogEvent_def setUser_def Let_def
        setValue_def addStatsigMetadata_def)

end
